theory Spec2Isabelle
  imports Main
begin

section \<open>pastekit: normalising paste events\<close>

text \<open>
  A shallow embedding of \<^verbatim>\<open>src/pastekit.js\<close>. Every function of the module is a
  HOL function of the same name. What the module takes from its host (the DOM parser and
  serialiser, \<^verbatim>\<open>atob\<close>, \<^verbatim>\<open>Buffer\<close>, the clock) is a parameter; the language built-ins
  whose result decides a claim (\<^verbatim>\<open>String.prototype.trim\<close>, \<^verbatim>\<open>decodeURIComponent\<close>,
  the forgiving base64 decoder behind \<^verbatim>\<open>atob\<close>) are written out after ECMA-262 and the
  HTML standard.
\<close>

subsection \<open>Strings\<close>

text \<open>
  A JavaScript string is a sequence of 16-bit code units, here the numbers below 65536
  (the functions below are defined on any list of numbers, and produce code units from
  code units). \<open>js\<close> turns an ASCII literal into such a sequence.
\<close>

type_synonym jschar = nat
type_synonym jsstring = "jschar list"

definition js :: "string \<Rightarrow> jsstring" where
  "js s = map of_char s"

text \<open>
  The regular expressions of the module all carry the flag \<^verbatim>\<open>i\<close> and not \<^verbatim>\<open>u\<close>. Two
  code units then match when their canonical forms are equal, the canonical form being
  the upper-case mapping, except that a code unit above 127 is never mapped into ASCII.
  Every pattern of the module is ASCII, so the canonical form matters on ASCII only: a
  pattern letter matches its two cases, any other pattern character matches itself.
\<close>

definition canonicalize :: "jschar \<Rightarrow> jschar" where
  "canonicalize c = (if 0x61 \<le> c \<and> c \<le> 0x7A then c - 0x20 else c)"

text \<open>
  \<open>match_ci pat s\<close>: the literal \<open>pat\<close> matched at the start of \<open>s\<close> under flag
  \<^verbatim>\<open>i\<close>; the result is what follows the match.
\<close>

fun match_ci :: "jsstring \<Rightarrow> jsstring \<Rightarrow> jsstring option" where
  "match_ci [] s = Some s"
| "match_ci (p # ps) [] = None"
| "match_ci (p # ps) (c # cs) =
     (if canonicalize c = canonicalize p then match_ci ps cs else None)"

text \<open>\<open>search_ci pat s\<close>: \<^verbatim>\<open>/pat/i.test(s)\<close> for a literal pattern, tried at every index.\<close>

fun search_ci :: "jsstring \<Rightarrow> jsstring \<Rightarrow> bool" where
  "search_ci pat [] = (match_ci pat [] \<noteq> None)"
| "search_ci pat (c # cs) = (match_ci pat (c # cs) \<noteq> None \<or> search_ci pat cs)"

text \<open>
  The line terminators, which \<^verbatim>\<open>.\<close> does not match (no flag \<^verbatim>\<open>s\<close>), and the white
  space that \<^verbatim>\<open>trim\<close> strips (WhiteSpace and LineTerminator of ECMA-262).
\<close>

definition is_line_terminator :: "jschar \<Rightarrow> bool" where
  "is_line_terminator c = (c = 0x0A \<or> c = 0x0D \<or> c = 0x2028 \<or> c = 0x2029)"

definition is_white_space :: "jschar \<Rightarrow> bool" where
  "is_white_space c =
     (c = 0x09 \<or> c = 0x0B \<or> c = 0x0C \<or> c = 0x20 \<or> c = 0xA0 \<or> c = 0x1680 \<or>
      (0x2000 \<le> c \<and> c \<le> 0x200A) \<or> c = 0x202F \<or> c = 0x205F \<or> c = 0x3000 \<or>
      c = 0xFEFF \<or> is_line_terminator c)"

definition trim :: "jsstring \<Rightarrow> jsstring" where
  "trim s = rev (dropWhile is_white_space (rev (dropWhile is_white_space s)))"

subsection \<open>Exceptions\<close>

text \<open>
  A call that can throw returns \<open>exn + 'a\<close>, \<open>Inl\<close> being the exception. The calls that
  can throw are those the module encloses in \<^verbatim>\<open>try\<close>: the DOM, the decoders and
  \<^verbatim>\<open>getData\<close>.
\<close>

datatype exn = URIError | InvalidCharacterError | ReferenceError | TypeError | DOMException

subsection \<open>decodeURIComponent\<close>

text \<open>
  ECMA-262, Decode with an empty reserved set, in two passes: \<^verbatim>\<open>%XX\<close> escapes become
  octets (a \<^verbatim>\<open>%\<close> without two hexadecimal digits is a URIError), then every octet
  above 127 must start a valid UTF-8 encoding of a code point, which is written in UTF-16.
\<close>

definition hex_digit :: "jschar \<Rightarrow> nat option" where
  "hex_digit c =
     (if 0x30 \<le> c \<and> c \<le> 0x39 then Some (c - 0x30)
      else if 0x41 \<le> c \<and> c \<le> 0x46 then Some (c - 0x41 + 10)
      else if 0x61 \<le> c \<and> c \<le> 0x66 then Some (c - 0x61 + 10)
      else None)"

datatype uri_token = Lit jschar | Octet nat

fun uri_tokens :: "jsstring \<Rightarrow> uri_token list option" where
  "uri_tokens [] = Some []"
| "uri_tokens [c] = (if c = 0x25 then None else Some [Lit c])"
| "uri_tokens [c, d] =
     (if c = 0x25 then None else map_option ((#) (Lit c)) (uri_tokens [d]))"
| "uri_tokens (c # h1 # h2 # rest) =
     (if c = 0x25 then
        (case (hex_digit h1, hex_digit h2) of
           (Some a, Some b) \<Rightarrow> map_option ((#) (Octet (16 * a + b))) (uri_tokens rest)
         | _ \<Rightarrow> None)
      else map_option ((#) (Lit c)) (uri_tokens (h1 # h2 # rest)))"

definition continuation :: "nat \<Rightarrow> bool" where
  "continuation b = (0x80 \<le> b \<and> b \<le> 0xBF)"

definition utf16 :: "nat \<Rightarrow> jsstring" where
  "utf16 cp =
     (if cp < 0x10000 then [cp]
      else [0xD800 + (cp - 0x10000) div 1024, 0xDC00 + (cp - 0x10000) mod 1024])"

fun utf8_decode :: "uri_token list \<Rightarrow> jsstring option" where
  "utf8_decode [] = Some []"
| "utf8_decode (Lit c # r) = map_option ((#) c) (utf8_decode r)"
| "utf8_decode (Octet b # r) =
     (if b < 0x80 then map_option ((#) b) (utf8_decode r)
      else if 0xC2 \<le> b \<and> b \<le> 0xDF then
        (case r of
           Octet b1 # r' \<Rightarrow>
             if continuation b1
             then map_option ((@) (utf16 ((b - 0xC0) * 64 + (b1 - 0x80)))) (utf8_decode r')
             else None
         | _ \<Rightarrow> None)
      else if 0xE0 \<le> b \<and> b \<le> 0xEF then
        (case r of
           Octet b1 # Octet b2 # r' \<Rightarrow>
             (let cp = (b - 0xE0) * 4096 + (b1 - 0x80) * 64 + (b2 - 0x80) in
              if continuation b1 \<and> continuation b2 \<and> 0x800 \<le> cp \<and>
                 \<not> (0xD800 \<le> cp \<and> cp \<le> 0xDFFF)
              then map_option ((@) (utf16 cp)) (utf8_decode r')
              else None)
         | _ \<Rightarrow> None)
      else if 0xF0 \<le> b \<and> b \<le> 0xF4 then
        (case r of
           Octet b1 # Octet b2 # Octet b3 # r' \<Rightarrow>
             (let cp = (b - 0xF0) * 262144 + (b1 - 0x80) * 4096 + (b2 - 0x80) * 64 + (b3 - 0x80) in
              if continuation b1 \<and> continuation b2 \<and> continuation b3 \<and>
                 0x10000 \<le> cp \<and> cp \<le> 0x10FFFF
              then map_option ((@) (utf16 cp)) (utf8_decode r')
              else None)
         | _ \<Rightarrow> None)
      else None)"

definition decodeURIComponent :: "jsstring \<Rightarrow> exn + jsstring" where
  "decodeURIComponent s =
     (case uri_tokens s of
        None \<Rightarrow> Inl URIError
      | Some ts \<Rightarrow> (case utf8_decode ts of None \<Rightarrow> Inl URIError | Some r \<Rightarrow> Inr r))"

subsection \<open>atob\<close>

text \<open>
  The HTML standard's \<^verbatim>\<open>atob\<close>: forgiving-base64 decode (Infra standard), an
  InvalidCharacterError on failure. The result is a binary string: one code unit per
  decoded byte, with no UTF-8 decoding.
\<close>

definition is_ascii_whitespace :: "jschar \<Rightarrow> bool" where
  "is_ascii_whitespace c = (c = 0x09 \<or> c = 0x0A \<or> c = 0x0C \<or> c = 0x0D \<or> c = 0x20)"

definition base64_digit :: "jschar \<Rightarrow> nat option" where
  "base64_digit c =
     (if 0x41 \<le> c \<and> c \<le> 0x5A then Some (c - 0x41)
      else if 0x61 \<le> c \<and> c \<le> 0x7A then Some (c - 0x61 + 26)
      else if 0x30 \<le> c \<and> c \<le> 0x39 then Some (c - 0x30 + 52)
      else if c = 0x2B then Some 62
      else if c = 0x2F then Some 63
      else None)"

definition strip_padding :: "jsstring \<Rightarrow> jsstring" where
  "strip_padding d =
     (if length d mod 4 = 0 then
        (case rev d of
           a # b # r \<Rightarrow> if a = 0x3D \<and> b = 0x3D then rev r
                        else if a = 0x3D then rev (b # r) else d
         | _ \<Rightarrow> d)
      else d)"

fun base64_bytes :: "nat list \<Rightarrow> nat list" where
  "base64_bytes (a # b # c # d # r) =
     (let n = ((a * 64 + b) * 64 + c) * 64 + d
      in n div 65536 # (n div 256) mod 256 # n mod 256 # base64_bytes r)"
| "base64_bytes [a, b, c] =
     (let n = (((a * 64 + b) * 64 + c) div 4) in [n div 256, n mod 256])"
| "base64_bytes [a, b] = [(a * 64 + b) div 16]"
| "base64_bytes _ = []"

definition atob_std :: "jsstring \<Rightarrow> exn + jsstring" where
  "atob_std data =
     (let d = strip_padding (filter (\<lambda>c. \<not> is_ascii_whitespace c) data) in
      if length d mod 4 = 1 then Inl InvalidCharacterError
      else (case those (map base64_digit d) of
              None \<Rightarrow> Inl InvalidCharacterError
            | Some ds \<Rightarrow> Inr (base64_bytes ds)))"

subsection \<open>The data-URL codec\<close>

text \<open>
  \<^verbatim>\<open>/^data:image\/svg\+xml[,;]/i.test(s)\<close>
\<close>

definition isSvgDataUrl :: "jsstring \<Rightarrow> bool" where
  "isSvgDataUrl s =
     (case match_ci (js ''data:image/svg+xml'') s of
        None \<Rightarrow> False
      | Some r \<Rightarrow> (case r of [] \<Rightarrow> False | c # _ \<Rightarrow> c = 0x2C \<or> c = 0x3B))"

text \<open>
  \<^verbatim>\<open>dataUrl.match(/^data:image\/svg\+xml(;[^,]*)?,(.*)$/i)\<close>: the two groups of the
  match, \<open>None\<close> when there is none. After the MIME type the optional group is tried
  first: a \<^verbatim>\<open>;\<close> and, greedily, everything up to the first comma (\<^verbatim>\<open>[^,]\<close> matches
  line terminators too). Giving characters back leaves a character other than a comma
  where the comma must stand, and so does skipping the group when a \<^verbatim>\<open>;\<close> is there;
  hence the comma of the pattern is the first comma of the string. \<^verbatim>\<open>(.*)$\<close> then has
  to reach the end of the string without meeting a line terminator.
\<close>

definition data_url_match :: "jsstring \<Rightarrow> (jsstring option \<times> jsstring) option" where
  "data_url_match s =
     (case match_ci (js ''data:image/svg+xml'') s of
        None \<Rightarrow> None
      | Some r \<Rightarrow>
          (case r of
             [] \<Rightarrow> None
           | c # cs \<Rightarrow>
               if c = 0x3B then
                 (case dropWhile (\<lambda>x. x \<noteq> 0x2C) cs of
                    [] \<Rightarrow> None
                  | _ # payload \<Rightarrow>
                      if list_ex is_line_terminator payload then None
                      else Some (Some (c # takeWhile (\<lambda>x. x \<noteq> 0x2C) cs), payload))
               else if c = 0x2C then
                 (if list_ex is_line_terminator cs then None else Some (None, cs))
               else None))"

text \<open>
  The host's base64 decoders: \<open>atob\<close> is \<open>None\<close> where \<^verbatim>\<open>typeof atob\<close> is not
  \<^verbatim>\<open>'function'\<close>; \<open>buffer_base64_utf8 p\<close> is
  \<^verbatim>\<open>Buffer.from(p, 'base64').toString('utf8')\<close>, a ReferenceError where there is no
  \<^verbatim>\<open>Buffer\<close>.
\<close>

record codec =
  atob :: "(jsstring \<Rightarrow> exn + jsstring) option"
  buffer_base64_utf8 :: "jsstring \<Rightarrow> exn + jsstring"

text \<open>A browser: \<^verbatim>\<open>atob\<close> is there, \<^verbatim>\<open>Buffer\<close> is not.\<close>

definition browser_codec :: codec where
  "browser_codec = \<lparr>atob = Some atob_std, buffer_base64_utf8 = (\<lambda>_. Inl ReferenceError)\<rparr>"

text \<open>The body of the \<^verbatim>\<open>try\<close> block of \<^verbatim>\<open>decodeSvgDataUrl\<close>, and the function.\<close>

definition decodeSvgDataUrl_try :: "codec \<Rightarrow> jsstring \<Rightarrow> exn + jsstring option" where
  "decodeSvgDataUrl_try cd dataUrl =
     (case data_url_match dataUrl of
        None \<Rightarrow> Inr None
      | Some (m1, m2) \<Rightarrow>
          (let meta = (case m1 of None \<Rightarrow> [] | Some m \<Rightarrow> m);
               payload = m2
           in if search_ci (js '';base64'') meta then
                (case atob cd of
                   Some f \<Rightarrow> map_sum id Some (f payload)
                 | None \<Rightarrow> map_sum id Some (buffer_base64_utf8 cd payload))
              else map_sum id Some (decodeURIComponent payload)))"

definition decodeSvgDataUrl :: "codec \<Rightarrow> jsstring \<Rightarrow> jsstring option" where
  "decodeSvgDataUrl cd dataUrl =
     (case decodeSvgDataUrl_try cd dataUrl of Inl _ \<Rightarrow> None | Inr r \<Rightarrow> r)"

subsection \<open>The plain-text matcher\<close>

text \<open>
  \<^verbatim>\<open>s.match(/<svg[\s\S]*?<\/svg>/i)\<close>. \<open>find_close r\<close> is the lazy \<^verbatim>\<open>[\s\S]*?\<close>
  followed by the closing tag: the shortest prefix of \<open>r\<close> that ends with it. The match
  is tried at every index, from the left.
\<close>

fun find_close :: "jsstring \<Rightarrow> jsstring option" where
  "find_close [] = None"
| "find_close (c # cs) =
     (case match_ci (js ''</svg>'') (c # cs) of
        Some _ \<Rightarrow> Some (take 6 (c # cs))
      | None \<Rightarrow> map_option ((#) c) (find_close cs))"

fun matchInlineSvg :: "jsstring \<Rightarrow> jsstring option" where
  "matchInlineSvg [] = None"
| "matchInlineSvg (c # cs) =
     (case match_ci (js ''<svg'') (c # cs) of
        Some r \<Rightarrow>
          (case find_close r of
             Some body \<Rightarrow> Some (take 4 (c # cs) @ body)
           | None \<Rightarrow> matchInlineSvg cs)
      | None \<Rightarrow> matchInlineSvg cs)"

subsection \<open>The document\<close>

text \<open>
  What \<^verbatim>\<open>DOMParser\<close> returns is a tree of nodes; an element has a local name, its
  attributes in order and its children. The parser and the serialiser are the host's:
  \<open>parseFromString dom html\<close> is \<^verbatim>\<open>new DOMParser().parseFromString(html, 'text/html')\<close>
  and \<open>serializeToString dom e\<close> is \<^verbatim>\<open>new XMLSerializer().serializeToString(e)\<close>,
  each of which may throw (a ReferenceError where the class is missing).
\<close>

datatype node =
  Element (localName: jsstring) (attributes: "(jsstring \<times> jsstring) list") (childNodes: "node list")
| Text jsstring

type_synonym document = "node list"

record dom =
  parseFromString :: "jsstring \<Rightarrow> exn + document"
  serializeToString :: "node \<Rightarrow> exn + jsstring"

definition getAttribute :: "node \<Rightarrow> jsstring \<Rightarrow> jsstring option" where
  "getAttribute e a = (case e of Element _ as _ \<Rightarrow> map_of as a | Text _ \<Rightarrow> None)"

text \<open>
  \<^verbatim>\<open>querySelector\<close> returns the first element, in tree order (depth first, an element
  before its children), that matches the selector.
\<close>

fun first_match :: "(node \<Rightarrow> bool) \<Rightarrow> node \<Rightarrow> node option"
  and first_in :: "(node \<Rightarrow> bool) \<Rightarrow> node list \<Rightarrow> node option" where
  "first_match P (Text t) = None"
| "first_match P (Element l as cs) =
     (if P (Element l as cs) then Some (Element l as cs) else first_in P cs)"
| "first_in P [] = None"
| "first_in P (n # ns) =
     (case first_match P n of Some e \<Rightarrow> Some e | None \<Rightarrow> first_in P ns)"

definition querySelector :: "document \<Rightarrow> (node \<Rightarrow> bool) \<Rightarrow> node option" where
  "querySelector doc sel = first_in sel doc"

text \<open>
  The three selectors of the module. A type selector compares the local name. An
  attribute selector compares the value as it is written, except that the HTML standard
  makes the value of \<^verbatim>\<open>type\<close> case-insensitive.
\<close>

definition starts_with :: "jsstring \<Rightarrow> jsstring \<Rightarrow> bool" where
  "starts_with pre s = (take (length pre) s = pre)"

definition sel_svg :: "node \<Rightarrow> bool" where
  "sel_svg e = (case e of Element l _ _ \<Rightarrow> l = js ''svg'' | Text _ \<Rightarrow> False)"

definition sel_img :: "node \<Rightarrow> bool" where
  "sel_img e =
     (case e of
        Element l _ _ \<Rightarrow>
          l = js ''img'' \<and>
          (case getAttribute e (js ''src'') of
             Some v \<Rightarrow> starts_with (js ''data:image/svg+xml'') v
           | None \<Rightarrow> False)
      | Text _ \<Rightarrow> False)"

definition sel_object :: "node \<Rightarrow> bool" where
  "sel_object e =
     (case e of
        Element l _ _ \<Rightarrow>
          l = js ''object'' \<and>
          (case getAttribute e (js ''type'') of
             Some t \<Rightarrow> match_ci (js ''image/svg+xml'') t = Some []
           | None \<Rightarrow> False) \<and>
          (case getAttribute e (js ''data'') of
             Some v \<Rightarrow> starts_with (js ''data:image/svg+xml'') v
           | None \<Rightarrow> False)
      | Text _ \<Rightarrow> False)"

text \<open>
  A value of type \<^verbatim>\<open>string|null\<close> is \<open>jsstring option\<close>; it is truthy when it is a
  string that is not empty.
\<close>

definition truthy :: "jsstring option \<Rightarrow> bool" where
  "truthy v = (case v of None \<Rightarrow> False | Some s \<Rightarrow> s \<noteq> [])"

text \<open>
  \<open>decoded_attribute cd e a\<close>: \<^verbatim>\<open>decodeSvgDataUrl(e.getAttribute(a))\<close>, kept when it is
  truthy. On a missing attribute \<^verbatim>\<open>null.match\<close> throws inside \<^verbatim>\<open>decodeSvgDataUrl\<close>,
  which returns \<^verbatim>\<open>null\<close>.
\<close>

definition decoded_attribute :: "codec \<Rightarrow> node \<Rightarrow> jsstring \<Rightarrow> jsstring option" where
  "decoded_attribute cd e a =
     (case getAttribute e a of
        None \<Rightarrow> None
      | Some v \<Rightarrow> (let decoded = decodeSvgDataUrl cd v in if truthy decoded then decoded else None))"

definition extractFirstSvgFromHtml_try :: "dom \<Rightarrow> codec \<Rightarrow> jsstring \<Rightarrow> exn + jsstring option" where
  "extractFirstSvgFromHtml_try dm cd html =
     (case parseFromString dm html of
        Inl e \<Rightarrow> Inl e
      | Inr doc \<Rightarrow>
          (case querySelector doc sel_svg of
             Some svgEl \<Rightarrow> map_sum id Some (serializeToString dm svgEl)
           | None \<Rightarrow>
               (case (case querySelector doc sel_img of
                        Some img \<Rightarrow> decoded_attribute cd img (js ''src'')
                      | None \<Rightarrow> None) of
                  Some decoded \<Rightarrow> Inr (Some decoded)
                | None \<Rightarrow>
                    (case (case querySelector doc sel_object of
                             Some obj \<Rightarrow> decoded_attribute cd obj (js ''data'')
                           | None \<Rightarrow> None) of
                       Some decoded \<Rightarrow> Inr (Some decoded)
                     | None \<Rightarrow> Inr None))))"

definition extractFirstSvgFromHtml :: "dom \<Rightarrow> codec \<Rightarrow> jsstring \<Rightarrow> jsstring option" where
  "extractFirstSvgFromHtml dm cd html =
     (case extractFirstSvgFromHtml_try dm cd html of Inl _ \<Rightarrow> None | Inr r \<Rightarrow> r)"

subsection \<open>Files\<close>

text \<open>
  A \<^verbatim>\<open>File\<close> has its text, a name and a type. The files of a result are tagged with
  where the object comes from: handed over by the clipboard, or made by
  \<^verbatim>\<open>fileFromSvgText\<close>. The default name is \<^verbatim>\<open>pasted-${Date.now()}.svg\<close>; the
  clock's value is a parameter.
\<close>

datatype jsfile = File (file_text: jsstring) (file_name: jsstring) (file_type: jsstring)

datatype artifact = PassThrough jsfile | Synthesized jsfile

function decimal :: "nat \<Rightarrow> jsstring" where
  "decimal n =
     (if n < 10 then [0x30 + n]
      else decimal (n div 10) @ [0x30 + n mod 10])"
  by pat_completeness auto
termination
  by (relation "measure id") auto

declare decimal.simps [simp del]

definition fileFromSvgText :: "nat \<Rightarrow> jsstring \<Rightarrow> artifact" where
  "fileFromSvgText now text =
     Synthesized (File text (js ''pasted-'' @ decimal now @ js ''.svg'') (js ''image/svg+xml''))"

subsection \<open>The clipboard\<close>

text \<open>
  An entry of \<^verbatim>\<open>dt.items\<close>. The module reads \<^verbatim>\<open>item.type\<close> and both accessors
  through \<^verbatim>\<open>?.\<close>, so each may be missing. \<open>getAsFile\<close> is \<open>None\<close> where the entry has
  no such method, and otherwise what the call returns (\<^verbatim>\<open>null\<close> is \<open>None\<close>).
  \<open>getAsString\<close> is \<open>None\<close> where the entry has no such method, and otherwise the string
  that the method hands to its callback, at some later time.
\<close>

record item =
  kind :: jsstring
  item_type :: "jsstring option"
  getAsFile :: "jsfile option option"
  getAsString :: "jsstring option"

text \<open>
  \<^verbatim>\<open>dt.items\<close> and \<^verbatim>\<open>dt.getData\<close> may be missing; \<^verbatim>\<open>getData\<close> may throw. The event
  carries the clipboard in \<^verbatim>\<open>clipboardData\<close> or in \<^verbatim>\<open>originalEvent.clipboardData\<close>
  (\<open>originalEvent\<close> is \<open>None\<close> where the event has no \<^verbatim>\<open>originalEvent\<close>).
\<close>

record dataTransfer =
  items :: "item list option"
  getData :: "(jsstring \<Rightarrow> exn + jsstring) option"

record event =
  clipboardData :: "dataTransfer option"
  originalEvent :: "dataTransfer option option"

record result =
  files :: "artifact list"
  "text" :: "jsstring option"
  html :: "jsstring option"

text \<open>
  An \<^verbatim>\<open>async\<close> function returns, or waits for ever on a promise that is never
  settled.
\<close>

datatype 'a outcome = Returned 'a | Pending

subsection \<open>canUseItems\<close>

text \<open>
  The values that the expression for \<^verbatim>\<open>canUseItems\<close> works on, with \<^verbatim>\<open>typeof\<close>,
  \<^verbatim>\<open>===\<close>, \<^verbatim>\<open>||\<close>, \<^verbatim>\<open>&&\<close> and the conversion to a boolean that \<^verbatim>\<open>if\<close> applies.
\<close>

datatype jsval = JUndefined | JBoolean bool | JNumber nat | JString jsstring | JFunction

fun typeof :: "jsval \<Rightarrow> jsstring" where
  "typeof JUndefined = js ''undefined''"
| "typeof (JBoolean _) = js ''boolean''"
| "typeof (JNumber _) = js ''number''"
| "typeof (JString _) = js ''string''"
| "typeof JFunction = js ''function''"

fun to_boolean :: "jsval \<Rightarrow> bool" where
  "to_boolean JUndefined = False"
| "to_boolean (JBoolean b) = b"
| "to_boolean (JNumber n) = (n \<noteq> 0)"
| "to_boolean (JString s) = (s \<noteq> [])"
| "to_boolean JFunction = True"

definition strict_eq :: "jsval \<Rightarrow> jsval \<Rightarrow> bool" where
  "strict_eq a b = (a = b)"

definition js_or :: "jsval \<Rightarrow> jsval \<Rightarrow> jsval" where
  "js_or a b = (if to_boolean a then a else b)"

definition js_and :: "jsval \<Rightarrow> jsval \<Rightarrow> jsval" where
  "js_and a b = (if to_boolean a then b else a)"

text \<open>\<^verbatim>\<open>items[0]?.getAsString\<close> and \<^verbatim>\<open>items[0]?.getAsFile\<close>.\<close>

definition first_getAsString :: "item list \<Rightarrow> jsval" where
  "first_getAsString its =
     (case its of
        [] \<Rightarrow> JUndefined
      | it # _ \<Rightarrow> (case getAsString it of None \<Rightarrow> JUndefined | Some _ \<Rightarrow> JFunction))"

definition first_getAsFile :: "item list \<Rightarrow> jsval" where
  "first_getAsFile its =
     (case its of
        [] \<Rightarrow> JUndefined
      | it # _ \<Rightarrow> (case getAsFile it of None \<Rightarrow> JUndefined | Some _ \<Rightarrow> JFunction))"

text \<open>
  \<^verbatim>\<open>items.length && typeof (items[0]?.getAsString === 'function' ||
  typeof items[0]?.getAsFile === 'function')\<close>, parenthesised as the source is: the
  first \<^verbatim>\<open>typeof\<close> is applied to the whole disjunction.
\<close>

definition canUseItems :: "item list \<Rightarrow> bool" where
  "canUseItems its =
     to_boolean
       (js_and (JNumber (length its))
          (JString (typeof
             (js_or
                (JBoolean (strict_eq (first_getAsString its) (JString (js ''function''))))
                (JBoolean (strict_eq (JString (typeof (first_getAsFile its)))
                                     (JString (js ''function''))))))))"

subsection \<open>extractFromItems\<close>

text \<open>
  The loop over the entries: the files that are handed over, in order, and one request
  per text entry, in order. A request is the declared type of the entry with its
  \<open>getAsString\<close>.
\<close>

type_synonym request = "jsstring \<times> jsstring option"
type_synonym text_entry = "jsstring \<times> jsstring"

fun scan_items :: "item list \<Rightarrow> artifact list \<times> request list" where
  "scan_items [] = ([], [])"
| "scan_items (it # its) =
     (let (fs, ps) = scan_items its in
      if kind it = js ''file'' \<and>
         (case item_type it of Some t \<Rightarrow> starts_with (js ''image/'') t | None \<Rightarrow> False)
      then (case getAsFile it of Some (Some f) \<Rightarrow> (PassThrough f # fs, ps) | _ \<Rightarrow> (fs, ps))
      else if item_type it = Some (js ''text/html'') \<or> item_type it = Some (js ''text/plain'')
      then (case item_type it of Some t \<Rightarrow> (fs, (t, getAsString it) # ps) | None \<Rightarrow> (fs, ps))
      else (fs, ps))"

text \<open>
  \<^verbatim>\<open>Promise.all\<close>. Request \<open>i\<close> is a promise that is resolved with
  \<^verbatim>\<open>{type, str}\<close> when its callback is called, and never where the entry has no
  \<open>getAsString\<close>. The callbacks are called in an order that the module does not
  control, the schedule: a list of indices of requests, in the order of completion (an
  index out of range, or one that comes again, changes nothing). \<^verbatim>\<open>Promise.all\<close>
  writes each value at the index of its promise and is resolved once every place is
  written; with a schedule that leaves a request out, it never is.
\<close>

definition settle :: "request list \<Rightarrow> text_entry option list \<Rightarrow> nat \<Rightarrow> text_entry option list" where
  "settle reqs vals i =
     (if i < length reqs then
        (case reqs ! i of
           (t, Some s) \<Rightarrow> (if vals ! i = None then vals[i := Some (t, s)] else vals)
         | (t, None) \<Rightarrow> vals)
      else vals)"

definition promise_all :: "request list \<Rightarrow> nat list \<Rightarrow> text_entry list option" where
  "promise_all reqs sched =
     those (foldl (settle reqs) (replicate (length reqs) None) sched)"

text \<open>\<^verbatim>\<open>if (v) files.push(fileFromSvgText(v))\<close>, as the list of what is pushed.\<close>

definition synthesize :: "nat \<Rightarrow> jsstring option \<Rightarrow> artifact list" where
  "synthesize now v =
     (case v of None \<Rightarrow> [] | Some s \<Rightarrow> if s \<noteq> [] then [fileFromSvgText now s] else [])"

text \<open>
  The block that looks for an SVG in a plain text; the module has it twice, word for
  word, in \<^verbatim>\<open>extractFromItems\<close> and in \<^verbatim>\<open>getPastedData\<close>.
\<close>

definition plain_text_svg :: "codec \<Rightarrow> nat \<Rightarrow> jsstring \<Rightarrow> artifact list" where
  "plain_text_svg cd now plain =
     (let svgInline = matchInlineSvg plain in
      if truthy svgInline then synthesize now svgInline
      else if isSvgDataUrl (trim plain) then synthesize now (decodeSvgDataUrl cd (trim plain))
      else [])"

definition select_entry :: "jsstring \<Rightarrow> text_entry list \<Rightarrow> jsstring option" where
  "select_entry ty texts = map_option snd (find (\<lambda>t. fst t = ty \<and> snd t \<noteq> []) texts)"

definition extractFromItems ::
  "dom \<Rightarrow> codec \<Rightarrow> nat \<Rightarrow> item list \<Rightarrow> nat list \<Rightarrow> result outcome" where
  "extractFromItems dm cd now its sched =
     (let (files0, textPromises) = scan_items its in
      case promise_all textPromises sched of
        None \<Rightarrow> Pending
      | Some texts \<Rightarrow>
          (let html = select_entry (js ''text/html'') texts;
               text = select_entry (js ''text/plain'') texts;
               files1 = (case html of
                           Some h \<Rightarrow> synthesize now (extractFirstSvgFromHtml dm cd h)
                         | None \<Rightarrow> []);
               files2 = (case text of Some t \<Rightarrow> plain_text_svg cd now t | None \<Rightarrow> [])
           in Returned \<lparr>files = files0 @ files1 @ files2, text = text, html = html\<rparr>))"

subsection \<open>getPastedData\<close>

definition getDataSafe :: "dataTransfer \<Rightarrow> jsstring \<Rightarrow> jsstring" where
  "getDataSafe dt ty =
     (case getData dt of
        None \<Rightarrow> []
      | Some g \<Rightarrow> (case g ty of Inl _ \<Rightarrow> [] | Inr s \<Rightarrow> s))"

text \<open>The part of \<^verbatim>\<open>getPastedData\<close> below the comment \<^verbatim>\<open>Firefox / generic fallback\<close>.\<close>

definition keyed_store :: "dom \<Rightarrow> codec \<Rightarrow> nat \<Rightarrow> dataTransfer \<Rightarrow> result" where
  "keyed_store dm cd now dt =
     (let html = getDataSafe dt (js ''text/html'');
          plain = (let p = getDataSafe dt (js ''text/plain'')
                   in if p \<noteq> [] then p else getDataSafe dt (js ''text''));
          svgFromHtml = (if html \<noteq> [] then extractFirstSvgFromHtml dm cd html else None);
          files1 = synthesize now svgFromHtml;
          files2 = (if plain \<noteq> [] \<and> \<not> truthy svgFromHtml then plain_text_svg cd now plain else [])
      in \<lparr>files = files1 @ files2,
          text = (if plain \<noteq> [] then Some plain else None),
          html = (if html \<noteq> [] then Some html else None)\<rparr>)"

definition resolve_source :: "event \<Rightarrow> dataTransfer option" where
  "resolve_source evt =
     (case clipboardData evt of
        Some dt \<Rightarrow> Some dt
      | None \<Rightarrow> (case originalEvent evt of Some (Some dt) \<Rightarrow> Some dt | _ \<Rightarrow> None))"

definition getPastedData ::
  "dom \<Rightarrow> codec \<Rightarrow> nat \<Rightarrow> event \<Rightarrow> nat list \<Rightarrow> result outcome" where
  "getPastedData dm cd now evt sched =
     (case resolve_source evt of
        None \<Rightarrow> Returned \<lparr>files = [], text = None, html = None\<rparr>
      | Some dt \<Rightarrow>
          (let its = (case items dt of None \<Rightarrow> [] | Some l \<Rightarrow> l) in
           if canUseItems its then
             (case extractFromItems dm cd now its sched of
                Pending \<Rightarrow> Pending
              | Returned r \<Rightarrow>
                  if files r \<noteq> [] \<or> truthy (text r) \<or> truthy (html r) then Returned r
                  else Returned (keyed_store dm cd now dt))
           else Returned (keyed_store dm cd now dt)))"

subsection \<open>Notions of the specification\<close>

text \<open>
  A string begins with a pattern, case-insensitively: the ASCII lower-case forms of its
  first characters are those of the pattern.
\<close>

definition ascii_lower :: "jschar \<Rightarrow> jschar" where
  "ascii_lower c = (if 0x41 \<le> c \<and> c \<le> 0x5A then c + 0x20 else c)"

definition begins_with_ci :: "jsstring \<Rightarrow> jsstring \<Rightarrow> bool" where
  "begins_with_ci pat s = (map ascii_lower (take (length pat) s) = map ascii_lower pat)"




text \<open>
  A schedule under which every retrieval that the entries are asked for completes: each
  request has its accessor, and its index is in the schedule.
\<close>

definition all_settle :: "item list \<Rightarrow> nat list \<Rightarrow> bool" where
  "all_settle its sched =
     (let reqs = snd (scan_items its)
      in list_all (\<lambda>i. snd (reqs ! i) \<noteq> None \<and> i \<in> set sched) [0..<length reqs])"

text \<open>
  The places of \<^verbatim>\<open>Promise.all\<close> once the callbacks with an index in \<open>S\<close> have been
  called.
\<close>

definition settled :: "request list \<Rightarrow> nat set \<Rightarrow> text_entry option list" where
  "settled reqs S =
     map (\<lambda>i. if i \<in> S then (case reqs ! i of (t, Some s) \<Rightarrow> Some (t, s) | (t, None) \<Rightarrow> None)
              else None)
       [0..<length reqs]"



definition source_items :: "event \<Rightarrow> item list" where
  "source_items evt =
     (case resolve_source evt of
        None \<Rightarrow> []
      | Some dt \<Rightarrow> (case items dt of None \<Rightarrow> [] | Some l \<Rightarrow> l))"

definition is_synthesized :: "artifact \<Rightarrow> bool" where
  "is_synthesized a = (case a of Synthesized _ \<Rightarrow> True | PassThrough _ \<Rightarrow> False)"

text \<open>A file of a result is sound when, if the module made it, its text is not empty.\<close>

definition artifact_text :: "artifact \<Rightarrow> jsstring" where
  "artifact_text a = (case a of Synthesized f \<Rightarrow> file_text f | PassThrough f \<Rightarrow> file_text f)"

definition sound_artifact :: "artifact \<Rightarrow> bool" where
  "sound_artifact a = (is_synthesized a \<longrightarrow> artifact_text a \<noteq> [])"

subsection \<open>The encoders of the test suite\<close>

text \<open>
  The tests build a base64 data URL with \<^verbatim>\<open>Buffer.from(svg, 'utf8').toString('base64')\<close>:
  the UTF-8 bytes of the string (a surrogate pair is one code point, a lone surrogate
  becomes U+FFFD), in base64 with padding.
\<close>

definition utf8_of :: "nat \<Rightarrow> nat list" where
  "utf8_of cp =
     (if cp < 0x80 then [cp]
      else if cp < 0x800 then [0xC0 + cp div 64, 0x80 + cp mod 64]
      else if cp < 0x10000 then [0xE0 + cp div 4096, 0x80 + (cp div 64) mod 64, 0x80 + cp mod 64]
      else [0xF0 + cp div 262144, 0x80 + (cp div 4096) mod 64, 0x80 + (cp div 64) mod 64,
            0x80 + cp mod 64])"

fun utf8_encode :: "jsstring \<Rightarrow> nat list" where
  "utf8_encode [] = []"
| "utf8_encode [c] = (if 0xD800 \<le> c \<and> c \<le> 0xDFFF then utf8_of 0xFFFD else utf8_of c)"
| "utf8_encode (c # d # r) =
     (if 0xD800 \<le> c \<and> c \<le> 0xDBFF \<and> 0xDC00 \<le> d \<and> d \<le> 0xDFFF
      then utf8_of (0x10000 + (c - 0xD800) * 1024 + (d - 0xDC00)) @ utf8_encode r
      else if 0xD800 \<le> c \<and> c \<le> 0xDFFF then utf8_of 0xFFFD @ utf8_encode (d # r)
      else utf8_of c @ utf8_encode (d # r))"

definition base64_char :: "nat \<Rightarrow> jschar" where
  "base64_char v =
     (if v < 26 then 0x41 + v
      else if v < 52 then 0x61 + (v - 26)
      else if v < 62 then 0x30 + (v - 52)
      else if v = 62 then 0x2B
      else 0x2F)"

fun base64_encode :: "nat list \<Rightarrow> jsstring" where
  "base64_encode (a # b # c # r) =
     base64_char (a div 4) # base64_char ((a mod 4) * 16 + b div 16) #
     base64_char ((b mod 16) * 4 + c div 64) # base64_char (c mod 64) # base64_encode r"
| "base64_encode [a, b] =
     [base64_char (a div 4), base64_char ((a mod 4) * 16 + b div 16),
      base64_char ((b mod 16) * 4), 0x3D]"
| "base64_encode [a] = [base64_char (a div 4), base64_char ((a mod 4) * 16), 0x3D, 0x3D]"
| "base64_encode [] = []"

text \<open>
  The six-bit groups that \<open>base64_encode\<close> writes, and its padding.
\<close>

fun sextets :: "nat list \<Rightarrow> nat list" where
  "sextets (a # b # c # r) =
     [a div 4, (a mod 4) * 16 + b div 16, (b mod 16) * 4 + c div 64, c mod 64] @ sextets r"
| "sextets [a, b] = [a div 4, (a mod 4) * 16 + b div 16, (b mod 16) * 4]"
| "sextets [a] = [a div 4, (a mod 4) * 16]"
| "sextets [] = []"

definition padding :: "nat list \<Rightarrow> jsstring" where
  "padding bs = (if length bs mod 3 = 1 then [0x3D, 0x3D] else if length bs mod 3 = 2 then [0x3D] else [])"

text \<open>
  The tests build a percent-encoded data URL with \<^verbatim>\<open>encodeURIComponent(svg)\<close>
  (ECMA-262, Encode with the unreserved set \<^verbatim>\<open>A-Z a-z 0-9 - _ . ! ~ * ' ( )\<close>): every
  other code point becomes the \<^verbatim>\<open>%XX\<close> escapes of its UTF-8 bytes, in upper case; a
  lone surrogate is a URIError.
\<close>

definition unreserved :: "jschar \<Rightarrow> bool" where
  "unreserved c =
     ((0x41 \<le> c \<and> c \<le> 0x5A) \<or> (0x61 \<le> c \<and> c \<le> 0x7A) \<or> (0x30 \<le> c \<and> c \<le> 0x39) \<or>
      c = 0x2D \<or> c = 0x5F \<or> c = 0x2E \<or> c = 0x21 \<or> c = 0x7E \<or> c = 0x2A \<or> c = 0x27 \<or>
      c = 0x28 \<or> c = 0x29)"

definition hex_char :: "nat \<Rightarrow> jschar" where
  "hex_char n = (if n < 10 then 0x30 + n else 0x41 + (n - 10))"

definition percent :: "nat list \<Rightarrow> jsstring" where
  "percent bs = concat (map (\<lambda>b. [0x25, hex_char (b div 16), hex_char (b mod 16)]) bs)"

fun encodeURIComponent :: "jsstring \<Rightarrow> exn + jsstring" where
  "encodeURIComponent [] = Inr []"
| "encodeURIComponent [c] =
     (if 0xD800 \<le> c \<and> c \<le> 0xDFFF then Inl URIError
      else Inr (if unreserved c then [c] else percent (utf8_of c)))"
| "encodeURIComponent (c # d # r) =
     (if 0xD800 \<le> c \<and> c \<le> 0xDBFF then
        (if 0xDC00 \<le> d \<and> d \<le> 0xDFFF
         then map_sum id ((@) (percent (utf8_of (0x10000 + (c - 0xD800) * 1024 + (d - 0xDC00)))))
                (encodeURIComponent r)
         else Inl URIError)
      else if 0xDC00 \<le> c \<and> c \<le> 0xDFFF then Inl URIError
      else map_sum id ((@) (if unreserved c then [c] else percent (utf8_of c)))
             (encodeURIComponent (d # r)))"

subsection \<open>A small host for the examples\<close>

text \<open>
  The examples below need a parser and a serialiser that compute. \<open>example_dom\<close> parses
  the few strings of the examples as a browser does (an \<^verbatim>\<open>html\<close> element with a
  \<^verbatim>\<open>head\<close> and a \<^verbatim>\<open>body\<close>) and any other string to an empty body; it writes an
  element as its tag, its attributes and its children.
\<close>

fun example_serialize :: "node \<Rightarrow> jsstring"
  and example_serialize_all :: "node list \<Rightarrow> jsstring" where
  "example_serialize (Text t) = t"
| "example_serialize (Element l as cs) =
     js ''<'' @ l @ concat (map (\<lambda>(k, v). js '' '' @ k @ js ''='' @ [0x22] @ v @ [0x22]) as) @
     js ''>'' @ example_serialize_all cs @ js ''</'' @ l @ js ''>''"
| "example_serialize_all [] = []"
| "example_serialize_all (n # ns) = example_serialize n @ example_serialize_all ns"

definition page :: "node list \<Rightarrow> document" where
  "page body = [Element (js ''html'') [] [Element (js ''head'') [] [], Element (js ''body'') [] body]]"

definition svg_with_id :: "string \<Rightarrow> node" where
  "svg_with_id i = Element (js ''svg'') [(js ''id'', js i)] []"

definition example_parse :: "jsstring \<Rightarrow> document" where
  "example_parse h =
     (if h = js ''<svg id=a></svg>'' then page [svg_with_id ''a'']
      else if h = js ''<div><svg id=first></svg><svg id=second></svg></div>''
      then page [Element (js ''div'') [] [svg_with_id ''first'', svg_with_id ''second'']]
      else if h = js ''<p>hi</p>'' then page [Element (js ''p'') [] [Text (js ''hi'')]]
      else page [])"

definition example_dom :: dom where
  "example_dom =
     \<lparr>parseFromString = (\<lambda>h. Inr (example_parse h)),
      serializeToString = (\<lambda>e. Inr (example_serialize e))\<rparr>"

text \<open>A host without \<^verbatim>\<open>DOMParser\<close>.\<close>

definition no_dom :: dom where
  "no_dom =
     \<lparr>parseFromString = (\<lambda>h. Inl ReferenceError),
      serializeToString = (\<lambda>e. Inl ReferenceError)\<rparr>"

definition text_item :: "string \<Rightarrow> jsstring \<Rightarrow> item" where
  "text_item ty s =
     \<lparr>kind = js ''string'', item_type = Some (js ty), getAsFile = None, getAsString = Some s\<rparr>"

definition bare_item :: "string \<Rightarrow> item" where
  "bare_item ty =
     \<lparr>kind = js ''string'', item_type = Some (js ty), getAsFile = None, getAsString = None\<rparr>"

definition file_item :: "string \<Rightarrow> jsfile \<Rightarrow> item" where
  "file_item ty f =
     \<lparr>kind = js ''file'', item_type = Some (js ty), getAsFile = Some (Some f), getAsString = None\<rparr>"


definition nothing :: "jsstring \<Rightarrow> exn + jsstring" where
  "nothing ty = Inr []"

definition only_plain :: "jsstring \<Rightarrow> jsstring \<Rightarrow> exn + jsstring" where
  "only_plain s ty = (if ty = js ''text/plain'' then Inr s else Inr [])"

definition throwing :: "jsstring \<Rightarrow> exn + jsstring" where
  "throwing ty = Inl DOMException"

definition paste_event :: "item list \<Rightarrow> (jsstring \<Rightarrow> exn + jsstring) \<Rightarrow> event" where
  "paste_event its g =
     \<lparr>clipboardData = Some \<lparr>items = Some its, getData = Some g\<rparr>, originalEvent = None\<rparr>"

section \<open>Properties\<close>

subsection \<open>Case-insensitive prefixes\<close>

lemma canonicalize_eq_iff:
  "canonicalize c = canonicalize p \<longleftrightarrow> ascii_lower c = ascii_lower p"
  unfolding canonicalize_def ascii_lower_def
  by (simp split: if_splits) arith

lemma map_canonicalize_eq_iff:
  "map canonicalize p = map canonicalize q \<longleftrightarrow> map ascii_lower p = map ascii_lower q"
proof (induction p arbitrary: q)
  case Nil
  then show ?case by simp
next
  case (Cons a p)
  then show ?case by (cases q) (simp_all add: canonicalize_eq_iff)
qed

lemma match_ci_Some_iff:
  "match_ci pat s = Some r \<longleftrightarrow>
     (\<exists>p. s = p @ r \<and> map canonicalize p = map canonicalize pat)"
proof (induction pat s rule: match_ci.induct)
  case (1 s)
  then show ?case by simp
next
  case (2 p ps)
  then show ?case by simp
next
  case (3 p ps c cs)
  show ?case
  proof (cases "canonicalize c = canonicalize p")
    case True
    with 3 show ?thesis
      by (auto simp: Cons_eq_append_conv map_eq_Cons_conv)
  next
    case False
    then show ?thesis
      by (auto simp: Cons_eq_append_conv map_eq_Cons_conv)
  qed
qed

lemma match_ci_begins:
  "match_ci pat s = Some r \<longleftrightarrow>
     begins_with_ci pat s \<and> length pat \<le> length s \<and> r = drop (length pat) s"
proof
  assume "match_ci pat s = Some r"
  then obtain p where p: "s = p @ r" "map canonicalize p = map canonicalize pat"
    by (auto simp: match_ci_Some_iff)
  from p(2) have len: "length p = length pat"
    by (metis length_map)
  from p(2) have "map ascii_lower p = map ascii_lower pat"
    by (simp add: map_canonicalize_eq_iff)
  with p(1) len show "begins_with_ci pat s \<and> length pat \<le> length s \<and> r = drop (length pat) s"
    by (simp add: begins_with_ci_def)
next
  assume a: "begins_with_ci pat s \<and> length pat \<le> length s \<and> r = drop (length pat) s"
  then have "s = take (length pat) s @ r"
    by simp
  moreover from a have "map canonicalize (take (length pat) s) = map canonicalize pat"
    by (simp add: begins_with_ci_def map_canonicalize_eq_iff)
  ultimately show "match_ci pat s = Some r"
    unfolding match_ci_Some_iff by blast
qed

lemma match_ci_None_iff:
  "match_ci pat s = None \<longleftrightarrow> \<not> (begins_with_ci pat s \<and> length pat \<le> length s)"
  using match_ci_begins [of pat s] by (cases "match_ci pat s") auto

lemma length_mime: "length (js ''data:image/svg+xml'') = 18"
  by (simp add: js_def)

subsection \<open>isSvgDataUrl\<close>

text \<open>
  Claim C8. \<open>isSvgDataUrl s\<close> is true if and only if \<open>s\<close> begins with
  \<^verbatim>\<open>data:image/svg+xml\<close>, case-insensitively, and the character that follows the MIME
  type is a comma or a semicolon. So it is false for every other MIME type, and
  wherever the character after the MIME type is neither of the two.
\<close>

theorem isSvgDataUrl_iff:
  "isSvgDataUrl s \<longleftrightarrow>
     begins_with_ci (js ''data:image/svg+xml'') s \<and> 18 < length s \<and>
     (s ! 18 = 0x2C \<or> s ! 18 = 0x3B)"
proof (cases "match_ci (js ''data:image/svg+xml'') s")
  case None
  then show ?thesis
    using match_ci_None_iff [of "js ''data:image/svg+xml''" s]
    by (auto simp: isSvgDataUrl_def length_mime)
next
  case (Some r)
  then have b: "begins_with_ci (js ''data:image/svg+xml'') s" and l: "18 \<le> length s"
    and r: "r = drop 18 s"
    by (simp_all add: match_ci_begins length_mime)
  show ?thesis
  proof (cases r)
    case Nil
    with r l have "length s = 18" by simp
    with Some Nil show ?thesis by (simp add: isSvgDataUrl_def)
  next
    case (Cons c cs)
    have "18 < length s"
    proof (rule ccontr)
      assume "\<not> 18 < length s"
      then have "drop 18 s = []" by simp
      with r Cons show False by simp
    qed
    moreover from this r Cons have "c = s ! 18"
      by (metis Cons_nth_drop_Suc list.inject)
    ultimately have "18 < length s" and "c = s ! 18" by simp_all
    with Some Cons b show ?thesis by (simp add: isSvgDataUrl_def)
  qed
qed

theorem isSvgDataUrl_iff_witness:
  "isSvgDataUrl (js ''DATA:Image/SVG+xml;base64,AAAA'') \<and>
   \<not> isSvgDataUrl (js ''data:image/svg+xmlx,'') \<and>
   \<not> isSvgDataUrl (js ''data:image/png;base64,AAAA'')"
  using isSvgDataUrl_iff [of "js ''DATA:Image/SVG+xml;base64,AAAA''"]
    isSvgDataUrl_iff [of "js ''data:image/svg+xmlx,''"]
    isSvgDataUrl_iff [of "js ''data:image/png;base64,AAAA''"]
  by (simp add: js_def begins_with_ci_def ascii_lower_def)

subsection \<open>decodeSvgDataUrl\<close>

lemmas url_eval = decodeSvgDataUrl_def decodeSvgDataUrl_try_def data_url_match_def js_def
  canonicalize_def is_line_terminator_def

lemma decode_no_match: "data_url_match u = None \<Longrightarrow> decodeSvgDataUrl cd u = None"
  by (simp add: decodeSvgDataUrl_def decodeSvgDataUrl_try_def)

text \<open>
  Claim C10. That \<open>isSvgDataUrl s\<close> is true does not make \<open>decodeSvgDataUrl s\<close>
  present: \<^verbatim>\<open>data:image/svg+xml;base64\<close>, which has no comma, and a data URL whose
  payload has a line feed both pass \<open>isSvgDataUrl\<close> and decode to \<^verbatim>\<open>null\<close>, whatever
  the host's decoders are.
\<close>

theorem svg_data_url_not_decodable:
  "isSvgDataUrl (js ''data:image/svg+xml;base64'') \<and>
   decodeSvgDataUrl cd (js ''data:image/svg+xml;base64'') = None \<and>
   isSvgDataUrl (js ''data:image/svg+xml,<svg>'' @ [0x0A] @ js ''</svg>'') \<and>
   decodeSvgDataUrl cd (js ''data:image/svg+xml,<svg>'' @ [0x0A] @ js ''</svg>'') = None"
proof -
  have "isSvgDataUrl (js ''data:image/svg+xml;base64'')"
    by (simp add: isSvgDataUrl_def js_def canonicalize_def)
  moreover have "data_url_match (js ''data:image/svg+xml;base64'') = None"
    by (simp add: url_eval)
  moreover have "isSvgDataUrl (js ''data:image/svg+xml,<svg>'' @ [0x0A] @ js ''</svg>'')"
    by (simp add: isSvgDataUrl_def js_def canonicalize_def)
  moreover have "data_url_match (js ''data:image/svg+xml,<svg>'' @ [0x0A] @ js ''</svg>'') = None"
    by (simp add: url_eval)
  ultimately show ?thesis
    by (simp add: decode_no_match)
qed

theorem svg_data_url_not_decodable_witness:
  "isSvgDataUrl (js ''data:image/svg+xml;base64'') \<and>
   decodeSvgDataUrl browser_codec (js ''data:image/svg+xml;base64'') = None \<and>
   isSvgDataUrl (js ''data:image/svg+xml,<svg>'' @ [0x0A] @ js ''</svg>'') \<and>
   decodeSvgDataUrl browser_codec (js ''data:image/svg+xml,<svg>'' @ [0x0A] @ js ''</svg>'') = None"
  by (rule svg_data_url_not_decodable)

subsection \<open>canUseItems\<close>

lemma canUseItems_iff: "canUseItems its \<longleftrightarrow> its \<noteq> []"
  by (cases its) (simp_all add: canUseItems_def js_and_def js_or_def js_def)

subsection \<open>extractFirstSvgFromHtml\<close>









subsection \<open>What is extracted is not empty\<close>

lemma find_close_length: "find_close r = Some body \<Longrightarrow> 6 \<le> length body"
proof (induction r arbitrary: body)
  case Nil
  then show ?case by simp
next
  case (Cons c cs)
  show ?case
  proof (cases "match_ci (js ''</svg>'') (c # cs)")
    case None
    with Cons show ?thesis by auto
  next
    case (Some a)
    then have "length (js ''</svg>'') \<le> length (c # cs)"
      by (simp only: match_ci_begins)
    with Some Cons.prems show ?thesis by (auto simp: js_def)
  qed
qed

lemma matchInlineSvg_length: "matchInlineSvg s = Some r \<Longrightarrow> 10 \<le> length r"
proof (induction s)
  case Nil
  then show ?case by simp
next
  case (Cons c cs)
  show ?case
  proof (cases "match_ci (js ''<svg'') (c # cs)")
    case None
    with Cons show ?thesis by simp
  next
    case (Some t)
    then have l: "length (js ''<svg'') \<le> length (c # cs)"
      by (simp only: match_ci_begins)
    show ?thesis
    proof (cases "find_close t")
      case None
      with Some Cons show ?thesis by simp
    next
      case (Some body)
      with \<open>match_ci (js ''<svg'') (c # cs) = Some t\<close> Cons.prems
      have "r = take 4 (c # cs) @ body" by simp
      moreover from Some have "6 \<le> length body" by (rule find_close_length)
      moreover from l have "length (take 4 (c # cs)) = 4" by (simp add: js_def)
      ultimately show ?thesis by simp
    qed
  qed
qed

lemma synthesize_sound: "list_all sound_artifact (synthesize now v)"
  by (simp add: synthesize_def sound_artifact_def is_synthesized_def artifact_text_def
      fileFromSvgText_def split: option.splits)

lemma plain_text_svg_sound: "list_all sound_artifact (plain_text_svg cd now t)"
  by (simp add: plain_text_svg_def Let_def synthesize_sound)

lemma scan_items_sound: "list_all sound_artifact (fst (scan_items its))"
  by (induction its)
     (auto simp: sound_artifact_def is_synthesized_def Let_def split: prod.splits option.splits)

lemma extractFromItems_sound:
  "extractFromItems dm cd now its sched = Returned r \<Longrightarrow> list_all sound_artifact (files r)"
  using scan_items_sound [of its]
  by (auto simp: extractFromItems_def Let_def synthesize_sound plain_text_svg_sound
      split: prod.splits option.splits)

lemma keyed_store_sound: "list_all sound_artifact (files (keyed_store dm cd now dt))"
  by (simp add: keyed_store_def Let_def synthesize_sound plain_text_svg_sound)

lemma getPastedData_sound:
  "getPastedData dm cd now evt sched = Returned r \<Longrightarrow> list_all sound_artifact (files r)"
  by (auto simp: getPastedData_def Let_def keyed_store_sound
      split: option.splits outcome.splits if_splits dest: extractFromItems_sound)

lemma extractFirstSvgFromHtml_empty:
  assumes "extractFirstSvgFromHtml dm cd h = Some []"
  shows "\<exists>e. serializeToString dm e = Inr []"
  using assms
  by (auto simp: extractFirstSvgFromHtml_def extractFirstSvgFromHtml_try_def
      decoded_attribute_def truthy_def Let_def map_sum_def
      split: sum.splits option.splits if_splits)

subsection \<open>Running the module on the examples\<close>

lemmas run_eval = getPastedData_def resolve_source_def paste_event_def canUseItems_iff
  extractFromItems_def promise_all_def settle_def select_entry_def text_item_def file_item_def
  plain_text_svg_def synthesize_def truthy_def fileFromSvgText_def keyed_store_def getDataSafe_def
  Let_def js_def canonicalize_def starts_with_def isSvgDataUrl_def trim_def is_white_space_def
  is_line_terminator_def extractFirstSvgFromHtml_def extractFirstSvgFromHtml_try_def
  querySelector_def sel_svg_def sel_img_def sel_object_def getAttribute_def decoded_attribute_def
  example_dom_def example_parse_def page_def svg_with_id_def decimal.simps nothing_def
  only_plain_def throwing_def no_dom_def bare_item_def

text \<open>
  Claim C9, as stated, fails: \<open>decodeSvgDataUrl\<close> returns the empty string, present, for
  a data URL with an empty payload.
\<close>

theorem decode_returns_empty_string:
  "decodeSvgDataUrl browser_codec (js ''data:image/svg+xml,'') = Some []"
  by (simp add: url_eval decodeURIComponent_def)

text \<open>
  Claim C9, amended. A present result of \<open>matchInlineSvg\<close> is not empty; a present result
  of \<open>extractFirstSvgFromHtml\<close> is not empty unless the serialiser itself wrote an empty
  string; and since every caller of \<open>decodeSvgDataUrl\<close> tests the result for truthiness,
  every file that \<open>getPastedData\<close> makes has a text that is not empty.
\<close>

theorem produced_svg_nonempty:
  "(matchInlineSvg s = Some r \<longrightarrow> r \<noteq> []) \<and>
   (extractFirstSvgFromHtml dm cd h = Some r' \<longrightarrow>
      r' \<noteq> [] \<or> (\<exists>e. serializeToString dm e = Inr [])) \<and>
   (getPastedData dm cd now evt sched = Returned res \<longrightarrow> list_all sound_artifact (files res))"
proof (intro conjI impI)
  assume "matchInlineSvg s = Some r"
  then have "10 \<le> length r" by (rule matchInlineSvg_length)
  then show "r \<noteq> []" by auto
next
  assume "extractFirstSvgFromHtml dm cd h = Some r'"
  then show "r' \<noteq> [] \<or> (\<exists>e. serializeToString dm e = Inr [])"
    using extractFirstSvgFromHtml_empty [of dm cd h] by (cases r') auto
next
  assume "getPastedData dm cd now evt sched = Returned res"
  then show "list_all sound_artifact (files res)" by (rule getPastedData_sound)
qed

theorem produced_svg_nonempty_witness:
  "matchInlineSvg (js ''a <svg></svg> b'') = Some (js ''<svg></svg>'') \<and>
   js ''<svg></svg>'' \<noteq> [] \<and>
   extractFirstSvgFromHtml example_dom browser_codec (js ''<svg id=a></svg>'') =
     Some (js ''<svg id='' @ [0x22] @ js ''a'' @ [0x22] @ js ''></svg>'') \<and>
   getPastedData example_dom browser_codec 0
     (paste_event [text_item ''text/plain'' (js ''data:image/svg+xml,'')] (\<lambda>_. Inr [])) [0] =
     Returned \<lparr>files = [], text = Some (js ''data:image/svg+xml,''), html = None\<rparr> \<and>
   list_all sound_artifact []"
proof -
  have 1: "matchInlineSvg (js ''a <svg></svg> b'') = Some (js ''<svg></svg>'')"
    by (simp add: js_def canonicalize_def)
  have 2: "extractFirstSvgFromHtml example_dom browser_codec (js ''<svg id=a></svg>'') =
     Some (js ''<svg id='' @ [0x22] @ js ''a'' @ [0x22] @ js ''></svg>'')"
    by (simp add: run_eval)
  have 3: "getPastedData example_dom browser_codec 0
     (paste_event [text_item ''text/plain'' (js ''data:image/svg+xml,'')] (\<lambda>_. Inr [])) [0] =
     Returned \<lparr>files = [], text = Some (js ''data:image/svg+xml,''), html = None\<rparr>"
    by (simp add: run_eval url_eval decodeURIComponent_def)
  from 1 2 3 produced_svg_nonempty [of "js ''a <svg></svg> b''" "js ''<svg></svg>''"
      example_dom browser_codec "js ''<svg id=a></svg>''"
      "js ''<svg id='' @ [0x22] @ js ''a'' @ [0x22] @ js ''></svg>''" 0
      "paste_event [text_item ''text/plain'' (js ''data:image/svg+xml,'')] (\<lambda>_. Inr [])" "[0]"
      "\<lparr>files = [], text = Some (js ''data:image/svg+xml,''), html = None\<rparr>"]
  show ?thesis by simp
qed

subsection \<open>Promise.all does not depend on the order of completion\<close>

lemma length_settled [simp]: "length (settled reqs S) = length reqs"
  by (simp add: settled_def)

lemma nth_settled:
  "j < length reqs \<Longrightarrow>
   settled reqs S ! j =
     (if j \<in> S then (case reqs ! j of (t, Some s) \<Rightarrow> Some (t, s) | (t, None) \<Rightarrow> None) else None)"
  by (simp add: settled_def)

lemma settled_empty: "settled reqs {} = replicate (length reqs) None"
  by (rule nth_equalityI) (simp_all add: nth_settled)

lemma settle_settled: "settle reqs (settled reqs S) i = settled reqs (insert i S)"
proof (rule nth_equalityI)
  show "length (settle reqs (settled reqs S) i) = length (settled reqs (insert i S))"
    by (simp add: settle_def split: prod.splits option.splits)
next
  fix j
  assume "j < length (settle reqs (settled reqs S) i)"
  then have j: "j < length reqs"
    by (simp add: settle_def split: prod.splits option.splits if_splits)
  show "settle reqs (settled reqs S) i ! j = settled reqs (insert i S) ! j"
  proof (cases "i < length reqs")
    case False
    with j show ?thesis by (auto simp: settle_def nth_settled)
  next
    case True
    with j show ?thesis
      by (cases "reqs ! i"; cases "snd (reqs ! i)"; cases "i = j")
         (auto simp: settle_def nth_settled split: prod.splits option.splits)
  qed
qed

lemma foldl_settle: "foldl (settle reqs) (settled reqs S) sched = settled reqs (S \<union> set sched)"
proof (induction sched arbitrary: S)
  case Nil
  then show ?case by simp
next
  case (Cons i sched)
  have "insert i S \<union> set sched = S \<union> set (i # sched)" by auto
  with Cons [of "insert i S"] show ?case by (simp add: settle_settled)
qed

lemma promise_all_settled: "promise_all reqs sched = those (settled reqs (set sched))"
  using foldl_settle [of reqs "{}" sched] by (simp add: promise_all_def settled_empty)

lemma those_map_Some: "those (map Some xs) = Some xs"
  by (induction xs) simp_all

lemma those_None: "None \<in> set xs \<Longrightarrow> those xs = None"
  by (induction xs) (auto split: option.splits)

lemma those_Some_D: "those xs = Some ys \<Longrightarrow> xs = map Some ys"
  by (induction xs arbitrary: ys) (auto split: option.splits)

lemma all_settle_iff:
  "all_settle its sched \<longleftrightarrow>
     (\<forall>i<length (snd (scan_items its)). snd (snd (scan_items its) ! i) \<noteq> None \<and> i \<in> set sched)"
  by (auto simp: all_settle_def Let_def list_all_iff)



lemma promise_all_Some_D:
  assumes "promise_all reqs sched = Some texts"
  shows "\<forall>i<length reqs. snd (reqs ! i) \<noteq> None \<and> i \<in> set sched"
proof (intro allI impI)
  fix i
  assume i: "i < length reqs"
  from assms have eq: "settled reqs (set sched) = map Some texts"
    by (simp add: promise_all_settled those_Some_D)
  then have "length texts = length reqs"
    by (metis length_map length_settled)
  with i eq have "settled reqs (set sched) ! i = Some (texts ! i)" by simp
  with i show "snd (reqs ! i) \<noteq> None \<and> i \<in> set sched"
    by (cases "reqs ! i") (auto simp: nth_settled split: if_splits option.splits)
qed

lemma not_image_text [simp]:
  "\<not> starts_with (js ''image/'') (js ''text/html'')"
  "\<not> starts_with (js ''image/'') (js ''text/plain'')"
  by (simp_all add: starts_with_def js_def)

lemma html_neq_plain [simp]: "js ''text/html'' \<noteq> js ''text/plain''" "js ''text/plain'' \<noteq> js ''text/html''"
  by (simp_all add: js_def)


subsection \<open>getPastedData when every retrieval completes\<close>


lemma extractFromItems_Returned_D:
  assumes "extractFromItems dm cd now its sched = Returned r"
  shows "all_settle its sched"
proof -
  obtain fs ps where sc: "scan_items its = (fs, ps)" by (cases "scan_items its")
  from assms sc obtain texts where "promise_all ps sched = Some texts"
    by (auto simp: extractFromItems_def split: option.splits)
  then have "\<forall>i<length ps. snd (ps ! i) \<noteq> None \<and> i \<in> set sched"
    by (rule promise_all_Some_D)
  with sc show ?thesis by (simp add: all_settle_iff)
qed

lemma extractFromItems_Pending:
  "\<not> all_settle its sched \<Longrightarrow> extractFromItems dm cd now its sched = Pending"
  using extractFromItems_Returned_D [of dm cd now its sched]
  by (cases "extractFromItems dm cd now its sched") auto




subsection \<open>The order of completion\<close>


lemmas sched_eval = all_settle_def source_items_def resolve_source_def paste_event_def
  text_item_def file_item_def bare_item_def Let_def js_def starts_with_def


subsection \<open>An image file together with an HTML entry\<close>





subsection \<open>How many files are synthesized\<close>

lemma synthesize_length: "length (synthesize now v) \<le> 1"
  by (simp add: synthesize_def split: option.splits)

lemma plain_text_svg_length: "length (plain_text_svg cd now t) \<le> 1"
  using synthesize_length [of now "matchInlineSvg t"]
    synthesize_length [of now "decodeSvgDataUrl cd (trim t)"]
  by (simp add: plain_text_svg_def Let_def)

lemma synthesize_truthy: "synthesize now v \<noteq> [] \<longleftrightarrow> truthy v"
  by (simp add: synthesize_def truthy_def split: option.splits)

lemma keyed_store_at_most_one: "length (files (keyed_store dm cd now dt)) \<le> 1"
proof -
  let ?h = "getDataSafe dt (js ''text/html'')"
  let ?v = "if ?h \<noteq> [] then extractFirstSvgFromHtml dm cd ?h else None"
  show ?thesis
  proof (cases "truthy ?v")
    case True
    then show ?thesis
      using synthesize_length [of now ?v] by (simp add: keyed_store_def Let_def)
  next
    case False
    then have "synthesize now ?v = []"
      using synthesize_truthy [of now ?v] by simp
    then show ?thesis
      using plain_text_svg_length [of cd now] by (simp add: keyed_store_def Let_def)
  qed
qed

text \<open>
  Claim C1 holds on the path that reads \<^verbatim>\<open>getData\<close> (\<open>keyed_store_at_most_one\<close>: the
  plain text is looked at only when the HTML gave nothing) and not in
  \<open>extractFromItems\<close>, which looks at the plain text whatever the HTML gave: with an
  \<^verbatim>\<open>svg\<close> in both entries, two files are synthesized.
\<close>

theorem items_path_synthesizes_two:
  "getPastedData example_dom browser_codec 0
     (paste_event [text_item ''text/html'' (js ''<svg id=a></svg>''),
                   text_item ''text/plain'' (js ''<svg id=b></svg>'')] nothing) [0, 1] =
   Returned \<lparr>files = [fileFromSvgText 0 (js ''<svg id='' @ [0x22] @ js ''a'' @ [0x22] @ js ''></svg>''),
                       fileFromSvgText 0 (js ''<svg id=b></svg>'')],
             text = Some (js ''<svg id=b></svg>''),
             html = Some (js ''<svg id=a></svg>'')\<rparr>"
  by (simp add: run_eval)

theorem items_path_synthesizes_two_witness:
  "\<exists>r. getPastedData example_dom browser_codec 0
     (paste_event [text_item ''text/html'' (js ''<svg id=a></svg>''),
                   text_item ''text/plain'' (js ''<svg id=b></svg>'')] nothing) [0, 1] = Returned r \<and>
       length (filter is_synthesized (files r)) = 2"
  using items_path_synthesizes_two by (simp add: is_synthesized_def fileFromSvgText_def)

text \<open>
  Claim C2 describes a test of the first entry's accessors that the expression for
  \<^verbatim>\<open>canUseItems\<close> does not make (\<open>canUseItems_iff\<close>: it is true of every list that
  is not empty). With one \<^verbatim>\<open>text/plain\<close> entry that has neither accessor, the entries
  are used, the promise of the entry is never resolved, and \<open>getPastedData\<close> never
  returns, where the path that reads \<^verbatim>\<open>getData\<close> would have returned the text.
\<close>

theorem capability_check_is_dead:
  "canUseItems [bare_item ''text/plain''] \<and>
   getPastedData example_dom browser_codec 0
     (paste_event [bare_item ''text/plain''] (only_plain (js ''hello''))) sched = Pending \<and>
   keyed_store example_dom browser_codec 0
     \<lparr>items = Some [bare_item ''text/plain''], getData = Some (only_plain (js ''hello''))\<rparr> =
   \<lparr>files = [], text = Some (js ''hello''), html = None\<rparr>"
proof -
  let ?its = "[bare_item ''text/plain'']"
  have "\<not> all_settle ?its sched"
    by (simp add: sched_eval)
  then have "extractFromItems example_dom browser_codec 0 ?its sched = Pending"
    by (rule extractFromItems_Pending)
  then have "getPastedData example_dom browser_codec 0
     (paste_event ?its (only_plain (js ''hello''))) sched = Pending"
    by (simp add: getPastedData_def resolve_source_def paste_event_def canUseItems_iff)
  moreover have "canUseItems ?its" by (simp add: canUseItems_iff)
  moreover have "keyed_store example_dom browser_codec 0
     \<lparr>items = Some ?its, getData = Some (only_plain (js ''hello''))\<rparr> =
   \<lparr>files = [], text = Some (js ''hello''), html = None\<rparr>"
    by (simp add: run_eval)
  ultimately show ?thesis by simp
qed

theorem capability_check_is_dead_witness:
  "canUseItems [bare_item ''text/plain''] \<and>
   getPastedData example_dom browser_codec 0
     (paste_event [bare_item ''text/plain''] (only_plain (js ''hello''))) [0] = Pending"
  using capability_check_is_dead [of "[0]"] by simp

subsection \<open>Failures\<close>







subsection \<open>Round trips\<close>

lemma base64_digit_char: "v < 64 \<Longrightarrow> base64_digit (base64_char v) = Some v"
  unfolding base64_digit_def base64_char_def by (simp split: if_splits; arith)

lemma base64_char_plain:
  "v < 64 \<Longrightarrow> \<not> is_ascii_whitespace (base64_char v) \<and> base64_char v \<noteq> 0x3D \<and>
     \<not> is_line_terminator (base64_char v) \<and> base64_char v \<noteq> 0x2C"
  unfolding base64_char_def is_ascii_whitespace_def is_line_terminator_def
  by (simp split: if_splits; arith)

lemma split4: "a div 4 * 64 + a mod 4 * 16 = 16 * (a::nat)"
proof -
  have "16 * a = 16 * (a div 4 * 4 + a mod 4)" by (simp only: div_mult_mod_eq)
  also have "\<dots> = a div 4 * 64 + a mod 4 * 16" by (simp only: distrib_left)
  finally show ?thesis by simp
qed

lemma split16: "b div 16 * 64 + b mod 16 * 4 = 4 * (b::nat)"
proof -
  have "4 * b = 4 * (b div 16 * 16 + b mod 16)" by (simp only: div_mult_mod_eq)
  also have "\<dots> = b div 16 * 64 + b mod 16 * 4" by (simp only: distrib_left)
  finally show ?thesis by simp
qed

lemma split64: "c div 64 * 64 + c mod 64 = (c::nat)"
  by simp

lemma mod256: "c < 256 \<Longrightarrow> (c + 256 * k) mod 256 = (c::nat)"
  by simp

lemma div256: "c < 256 \<Longrightarrow> (c + 256 * k) div 256 = (k::nat)"
  by simp

lemma three_bytes:
  "((a div 4 * 64 + (a mod 4 * 16 + b div 16)) * 64 + (b mod 16 * 4 + c div 64)) * 64 + c mod 64
     = a * 65536 + b * 256 + (c::nat)"
proof -
  have "((a div 4 * 64 + (a mod 4 * 16 + b div 16)) * 64 + (b mod 16 * 4 + c div 64)) * 64 + c mod 64
        = (a div 4 * 64 + a mod 4 * 16) * 4096 + (b div 16 * 64 + b mod 16 * 4) * 64 +
          (c div 64 * 64 + c mod 64)"
    by (simp only: distrib_right mult.assoc add.assoc)
  then show ?thesis by (simp only: split4 split16 split64)
qed

lemma base64_encode_sextets: "base64_encode bs = map base64_char (sextets bs) @ padding bs"
  by (induction bs rule: base64_encode.induct) (simp_all add: padding_def mod_Suc)

lemma sextets_bound: "list_all (\<lambda>b. b < 256) bs \<Longrightarrow> list_all (\<lambda>v. v < 64) (sextets bs)"
  by (induction bs rule: sextets.induct) (simp_all, arith+)

lemma length_encode_mod: "length (base64_encode bs) mod 4 = 0"
  by (induction bs rule: base64_encode.induct) simp_all

lemma base64_bytes_sextets: "list_all (\<lambda>b. b < 256) bs \<Longrightarrow> base64_bytes (sextets bs) = bs"
proof (induction bs rule: sextets.induct)
  case (1 a b c r)
  then have a: "a < 256" and b: "b < 256" and c: "c < 256" by simp_all
  have e: "a * 65536 + b * 256 + c = c + 256 * (b + 256 * a)" by simp
  have d1: "(a * 65536 + b * 256 + c) div 256 = b + 256 * a"
    unfolding e using c by (rule div256)
  have "(a * 65536 + b * 256 + c) div 65536 = (a * 65536 + b * 256 + c) div 256 div 256"
    by (simp only: div_mult2_eq [symmetric]) simp
  also have "\<dots> = a" unfolding d1 using b by simp
  finally have "(a * 65536 + b * 256 + c) div 65536 = a" .
  moreover have "(a * 65536 + b * 256 + c) div 256 mod 256 = b"
    unfolding d1 using b by simp
  moreover have "(a * 65536 + b * 256 + c) mod 256 = c"
    unfolding e using c by (rule mod256)
  moreover have "base64_bytes (sextets (a # b # c # r)) =
      (a * 65536 + b * 256 + c) div 65536 # (a * 65536 + b * 256 + c) div 256 mod 256 #
      (a * 65536 + b * 256 + c) mod 256 # base64_bytes (sextets r)"
    by (simp only: sextets.simps append.simps base64_bytes.simps Let_def three_bytes)
  moreover from 1 have "base64_bytes (sextets r) = r" by simp
  ultimately show ?case by (simp only:)
next
  case (2 a b)
  then have a: "a < 256" and b: "b < 256" by simp_all
  have "(a div 4 * 64 + (a mod 4 * 16 + b div 16)) * 64 + b mod 16 * 4
        = (a div 4 * 64 + a mod 4 * 16) * 64 + (b div 16 * 64 + b mod 16 * 4)"
    by (simp only: distrib_right mult.assoc add.assoc)
  then have "(a div 4 * 64 + (a mod 4 * 16 + b div 16)) * 64 + b mod 16 * 4 = (a * 256 + b) * 4"
    by (simp only: split4 split16) simp
  then have "((a div 4 * 64 + (a mod 4 * 16 + b div 16)) * 64 + b mod 16 * 4) div 4 = a * 256 + b"
    by simp
  moreover have "base64_bytes (sextets [a, b]) =
      [((a div 4 * 64 + (a mod 4 * 16 + b div 16)) * 64 + b mod 16 * 4) div 4 div 256,
       ((a div 4 * 64 + (a mod 4 * 16 + b div 16)) * 64 + b mod 16 * 4) div 4 mod 256]"
    by (simp only: sextets.simps base64_bytes.simps Let_def)
  ultimately show ?case using b by simp
next
  case (3 a)
  have "(a div 4 * 64 + a mod 4 * 16) div 16 = a" by (simp only: split4)
  moreover have "base64_bytes (sextets [a]) = [(a div 4 * 64 + a mod 4 * 16) div 16]"
    by (simp only: sextets.simps base64_bytes.simps)
  ultimately show ?case by (simp only:)
next
  case 4
  then show ?case by simp
qed

lemma those_digits:
  "list_all (\<lambda>v. v < 64) vs \<Longrightarrow> those (map (base64_digit \<circ> base64_char) vs) = Some vs"
  by (induction vs) (simp_all add: base64_digit_char)

lemma length_sextets_mod:
  "(length bs mod 3 = 0 \<longrightarrow> length (sextets bs) mod 4 = 0) \<and>
   (length bs mod 3 = 1 \<longrightarrow> length (sextets bs) mod 4 = 2) \<and>
   (length bs mod 3 = 2 \<longrightarrow> length (sextets bs) mod 4 = 3)"
  by (induction bs rule: sextets.induct) (simp_all add: mod_Suc)

lemma strip_padding_none:
  assumes "0x3D \<notin> set X" and "length X mod 4 = 0"
  shows "strip_padding X = X"
proof (cases "rev X")
  case Nil
  then show ?thesis by (simp add: strip_padding_def)
next
  case (Cons a r)
  then have "a \<in> set X" by (metis list.set_intros(1) set_rev)
  with assms(1) have "a \<noteq> 0x3D" by auto
  with Cons show ?thesis by (simp add: strip_padding_def split: list.splits)
qed

lemma strip_padding_one:
  assumes "0x3D \<notin> set X" and "length X mod 4 = 3"
  shows "strip_padding (X @ [0x3D]) = X"
proof (cases "rev X")
  case Nil
  with assms(2) show ?thesis by simp
next
  case (Cons b r)
  then have "b \<in> set X" by (metis list.set_intros(1) set_rev)
  with assms(1) have b: "b \<noteq> 0x3D" by auto
  from Cons have "X = rev (b # r)" by (metis rev_rev_ident)
  moreover from assms(2) have "Suc (length X) mod 4 = 0" by (simp add: mod_Suc)
  ultimately show ?thesis using Cons b by (simp add: strip_padding_def)
qed

lemma strip_padding_two:
  assumes "length X mod 4 = 2"
  shows "strip_padding (X @ [0x3D, 0x3D]) = X"
proof -
  from assms have "Suc (Suc (length X)) mod 4 = 0" by (simp add: mod_Suc)
  then show ?thesis by (simp add: strip_padding_def)
qed

lemma atob_base64_encode:
  assumes "list_all (\<lambda>b. b < 256) bs"
  shows "atob_std (base64_encode bs) = Inr bs"
proof -
  let ?X = "map base64_char (sextets bs)"
  from assms have sx: "list_all (\<lambda>v. v < 64) (sextets bs)" by (rule sextets_bound)
  then have plain: "\<forall>c\<in>set ?X. \<not> is_ascii_whitespace c \<and> c \<noteq> 0x3D"
    by (auto simp: list_all_iff base64_char_plain)
  have pad: "\<forall>c\<in>set (padding bs). \<not> is_ascii_whitespace c"
    by (simp add: padding_def is_ascii_whitespace_def)
  from plain pad have f: "filter (\<lambda>c. \<not> is_ascii_whitespace c) (base64_encode bs) = base64_encode bs"
    by (auto simp: base64_encode_sextets)
  from plain have ne: "0x3D \<notin> set ?X" by auto
  have "length bs mod 3 = 0 \<or> length bs mod 3 = 1 \<or> length bs mod 3 = 2" by arith
  then have sp: "strip_padding (base64_encode bs) = ?X \<and> length ?X mod 4 \<noteq> 1"
    using length_sextets_mod [of bs] ne
    by (auto simp: base64_encode_sextets padding_def strip_padding_none strip_padding_one
        strip_padding_two)
  show ?thesis
    using sp assms by (simp add: atob_std_def f Let_def those_digits [OF sx] base64_bytes_sextets)
qed

lemma match_ci_self: "match_ci p (p @ r) = Some r"
  unfolding match_ci_Some_iff by blast

lemma search_ci_found: "search_ci pat (xs @ pat @ ys)"
proof (induction xs)
  case Nil
  show ?case
  proof (cases "pat @ ys")
    case Nil
    then show ?thesis by simp
  next
    case (Cons c cs)
    have "match_ci pat (pat @ ys) = Some ys" by (rule match_ci_self)
    with Cons show ?thesis by simp
  qed
next
  case (Cons x xs)
  then show ?case by simp
qed

lemma data_url_match_built:
  assumes "meta = [] \<or> hd meta = 0x3B" and "0x2C \<notin> set meta"
    and "\<not> list_ex is_line_terminator payload"
  shows "data_url_match (js ''data:image/svg+xml'' @ meta @ 0x2C # payload) =
         Some (if meta = [] then None else Some meta, payload)"
proof (cases meta)
  case Nil
  with assms(3) show ?thesis
    by (simp add: data_url_match_def match_ci_self)
next
  case (Cons m ms)
  with assms(1) have m: "m = 0x3B" by simp
  from Cons assms(2) have ms: "\<And>x. x \<in> set ms \<Longrightarrow> x \<noteq> 0x2C" by auto
  then have "dropWhile (\<lambda>x. x \<noteq> 0x2C) (ms @ 0x2C # payload) = 0x2C # payload"
    by (simp add: dropWhile_append2)
  moreover from ms have "takeWhile (\<lambda>x. x \<noteq> 0x2C) (ms @ 0x2C # payload) = ms"
    by (simp add: takeWhile_append2)
  ultimately show ?thesis
    using Cons m assms(3) by (simp add: data_url_match_def match_ci_self)
qed

lemma decode_built:
  assumes "meta = [] \<or> hd meta = 0x3B" and "0x2C \<notin> set meta"
    and "\<not> list_ex is_line_terminator payload"
  shows "decodeSvgDataUrl cd (js ''data:image/svg+xml'' @ meta @ 0x2C # payload) =
         (case (if search_ci (js '';base64'') meta
                then (case atob cd of Some f \<Rightarrow> f payload | None \<Rightarrow> buffer_base64_utf8 cd payload)
                else decodeURIComponent payload) of
            Inl e \<Rightarrow> None
          | Inr r \<Rightarrow> Some r)"
proof -
  have s: "search_ci (js '';base64'') [] = False"
    by (simp add: js_def)
  show ?thesis
    using s
    by (auto simp: decodeSvgDataUrl_def decodeSvgDataUrl_try_def data_url_match_built [OF assms]
        Let_def map_sum_def split: sum.splits option.splits)
qed

lemma utf8_of_bytes: "cp < 0x110000 \<Longrightarrow> list_all (\<lambda>b. b < 256) (utf8_of cp)"
  unfolding utf8_of_def by (simp; arith)

lemma utf8_encode_bytes:
  "list_all (\<lambda>c. c < 0x10000) s \<Longrightarrow> list_all (\<lambda>b. b < 256) (utf8_encode s)"
proof (induction s rule: utf8_encode.induct)
  case 1
  then show ?case by simp
next
  case (2 c)
  then show ?case by (simp add: utf8_of_bytes)
next
  case (3 c d r)
  have "0xD800 \<le> c \<Longrightarrow> c \<le> 0xDBFF \<Longrightarrow> 0xDC00 \<le> d \<Longrightarrow> d \<le> 0xDFFF \<Longrightarrow>
        0x10000 + (c - 0xD800) * 1024 + (d - 0xDC00) < 0x110000"
    by arith
  with 3 show ?case by (auto simp: utf8_of_bytes)
qed

lemma utf8_encode_ascii: "list_all (\<lambda>c. c < 0x80) s \<Longrightarrow> utf8_encode s = s"
  by (induction s rule: utf8_encode.induct) (simp_all add: utf8_of_def)

lemma base64_encode_no_line_terminator:
  assumes "list_all (\<lambda>b. b < 256) bs"
  shows "\<not> list_ex is_line_terminator (base64_encode bs)"
proof -
  from assms have "list_all (\<lambda>v. v < 64) (sextets bs)" by (rule sextets_bound)
  then have "\<forall>c\<in>set (map base64_char (sextets bs)). \<not> is_line_terminator c"
    by (auto simp: list_all_iff base64_char_plain)
  moreover have "\<forall>c\<in>set (padding bs). \<not> is_line_terminator c"
    by (simp add: padding_def is_line_terminator_def)
  ultimately show ?thesis
    by (auto simp: base64_encode_sextets list_ex_iff)
qed

lemma base64_data_url_decodes_to_bytes:
  assumes "list_all (\<lambda>c. c < 0x10000) svg"
    and "params = [] \<or> hd params = 0x3B" and "0x2C \<notin> set params"
  shows "decodeSvgDataUrl browser_codec
           (js ''data:image/svg+xml'' @ params @ js '';base64,'' @ base64_encode (utf8_encode svg)) =
         Some (utf8_encode svg)"
proof -
  let ?meta = "params @ js '';base64''"
  let ?payload = "base64_encode (utf8_encode svg)"
  from assms(1) have bytes: "list_all (\<lambda>b. b < 256) (utf8_encode svg)"
    by (rule utf8_encode_bytes)
  have url: "js ''data:image/svg+xml'' @ params @ js '';base64,'' @ ?payload =
             js ''data:image/svg+xml'' @ ?meta @ 0x2C # ?payload"
    by (simp add: js_def)
  from assms(2) have 1: "?meta = [] \<or> hd ?meta = 0x3B"
    by (cases params) (simp_all add: js_def)
  from assms(3) have 2: "0x2C \<notin> set ?meta" by (simp add: js_def)
  from bytes have 3: "\<not> list_ex is_line_terminator ?payload"
    by (rule base64_encode_no_line_terminator)
  have "search_ci (js '';base64'') (params @ js '';base64'' @ [])"
    by (rule search_ci_found)
  then have 4: "search_ci (js '';base64'') ?meta" by simp
  show ?thesis
    unfolding url decode_built [OF 1 2 3]
    using 4 by (simp add: browser_codec_def atob_base64_encode [OF bytes])
qed

lemma length_utf8_of: "1 \<le> length (utf8_of cp)" "0x80 \<le> cp \<Longrightarrow> 2 \<le> length (utf8_of cp)"
  "0x10000 \<le> cp \<Longrightarrow> 3 \<le> length (utf8_of cp)"
  by (simp_all add: utf8_of_def)

lemma length_utf8_encode: "length s \<le> length (utf8_encode s)"
proof (induction s rule: utf8_encode.induct)
  case 1
  then show ?case by simp
next
  case (2 c)
  then show ?case using length_utf8_of(1) [of c] length_utf8_of(1) [of "0xFFFD"] by simp
next
  case (3 c d r)
  then show ?case
    using length_utf8_of(1) [of c] length_utf8_of(1) [of "0xFFFD"]
      length_utf8_of(3) [of "0x10000 + (c - 0xD800) * 1024 + (d - 0xDC00)"]
    by (auto split: if_splits)
qed

lemma length_utf8_encode_less:
  "list_ex (\<lambda>c. 0x80 \<le> c) s \<Longrightarrow> length s < length (utf8_encode s)"
proof (induction s rule: utf8_encode.induct)
  case 1
  then show ?case by simp
next
  case (2 c)
  then show ?case using length_utf8_of(2) [of c] length_utf8_of(2) [of "0xFFFD"] by simp
next
  case (3 c d r)
  show ?case
  proof (cases "0xD800 \<le> c \<and> c \<le> 0xDBFF \<and> 0xDC00 \<le> d \<and> d \<le> 0xDFFF")
    case True
    then show ?thesis
      using length_utf8_of(3) [of "0x10000 + (c - 0xD800) * 1024 + (d - 0xDC00)"]
        length_utf8_encode [of r]
      by simp
  next
    case False
    show ?thesis
    proof (cases "0x80 \<le> c")
      case True
      then show ?thesis
        using False length_utf8_of(2) [of c] length_utf8_of(2) [of "0xFFFD"]
          length_utf8_encode [of "d # r"]
        by (auto split: if_splits)
    next
      case c: False
      with "3.prems" have "list_ex (\<lambda>c. 0x80 \<le> c) (d # r)" by simp
      with False c "3.IH"(3) have "length (d # r) < length (utf8_encode (d # r))" by simp
      with False c show ?thesis using length_utf8_of(1) [of c] by simp
    qed
  qed
qed

lemma hex_digit_char: "n < 16 \<Longrightarrow> hex_digit (hex_char n) = Some n"
  unfolding hex_digit_def hex_char_def by (simp split: if_splits; arith)

lemma hex_char_plain: "n < 16 \<Longrightarrow> \<not> is_line_terminator (hex_char n)"
  unfolding hex_char_def is_line_terminator_def by (simp split: if_splits; arith)

lemma uri_tokens_literal:
  assumes "c \<noteq> 0x25"
  shows "uri_tokens (c # r) = map_option ((#) (Lit c)) (uri_tokens r)"
proof (cases r)
  case Nil
  with assms show ?thesis by simp
next
  case (Cons d r')
  with assms show ?thesis by (cases r') simp_all
qed

lemma uri_tokens_escape:
  assumes "b < 256"
  shows "uri_tokens (0x25 # hex_char (b div 16) # hex_char (b mod 16) # r) =
         map_option ((#) (Octet b)) (uri_tokens r)"
proof -
  from assms have "b div 16 < 16" by simp
  then have 1: "hex_digit (hex_char (b div 16)) = Some (b div 16)" by (rule hex_digit_char)
  have 2: "hex_digit (hex_char (b mod 16)) = Some (b mod 16)" by (rule hex_digit_char) simp
  have 3: "16 * (b div 16) + b mod 16 = b" by simp
  show ?thesis by (simp add: 1 2 3)
qed

lemma uri_tokens_percent:
  "list_all (\<lambda>b. b < 256) bs \<Longrightarrow>
   uri_tokens (percent bs @ r) = map_option ((@) (map Octet bs)) (uri_tokens r)"
proof (induction bs)
  case Nil
  then show ?case by (simp add: percent_def option.map_ident)
next
  case (Cons b bs)
  then have b: "b < 256" and IH: "uri_tokens (percent bs @ r) = map_option ((@) (map Octet bs)) (uri_tokens r)"
    by (simp_all add: percent_def)
  have "percent (b # bs) @ r = 0x25 # hex_char (b div 16) # hex_char (b mod 16) # (percent bs @ r)"
    by (simp add: percent_def)
  then show ?case
    by (simp only: uri_tokens_escape [OF b] IH) (simp add: option.map_comp comp_def)
qed

lemma join3: "cp div 4096 * 4096 + cp div 64 mod 64 * 64 + cp mod 64 = (cp::nat)"
proof -
  have "cp mod (64 * 64) = 64 * (cp div 64 mod 64) + cp mod 64" by (rule mod_mult2_eq)
  then have a: "cp div 64 mod 64 * 64 + cp mod 64 = cp mod 4096" by simp
  have "cp div 4096 * 4096 + cp div 64 mod 64 * 64 + cp mod 64 =
        cp div 4096 * 4096 + (cp div 64 mod 64 * 64 + cp mod 64)"
    by (simp only: add.assoc)
  also have "\<dots> = cp div 4096 * 4096 + cp mod 4096" by (simp only: a)
  also have "\<dots> = cp" by (rule div_mult_mod_eq)
  finally show ?thesis .
qed

lemma join4:
  "cp div 262144 * 262144 + cp div 4096 mod 64 * 4096 + cp div 64 mod 64 * 64 + cp mod 64 = (cp::nat)"
proof -
  have "cp mod (64 * 64) = 64 * (cp div 64 mod 64) + cp mod 64" by (rule mod_mult2_eq)
  then have a: "cp div 64 mod 64 * 64 + cp mod 64 = cp mod 4096" by simp
  have "cp mod (4096 * 64) = 4096 * (cp div 4096 mod 64) + cp mod 4096" by (rule mod_mult2_eq)
  then have b: "cp div 4096 mod 64 * 4096 + cp mod 4096 = cp mod 262144" by simp
  have "cp div 262144 * 262144 + cp div 4096 mod 64 * 4096 + cp div 64 mod 64 * 64 + cp mod 64 =
        cp div 262144 * 262144 + (cp div 4096 mod 64 * 4096 + (cp div 64 mod 64 * 64 + cp mod 64))"
    by (simp only: add.assoc)
  also have "\<dots> = cp div 262144 * 262144 + cp mod 262144" by (simp only: a b)
  also have "\<dots> = cp" by (rule div_mult_mod_eq)
  finally show ?thesis .
qed

lemma append_single: "(@) [x] = (#) x"
  by (rule ext) simp

lemma mod64_le: "(n::nat) mod 64 \<le> 63"
proof -
  have "n mod 64 < 64" by simp
  then show ?thesis by linarith
qed

lemma utf8_decode_code_point:
  assumes "cp < 0x110000" and "\<not> (0xD800 \<le> cp \<and> cp \<le> 0xDFFF)"
  shows "utf8_decode (map Octet (utf8_of cp) @ ts) = map_option ((@) (utf16 cp)) (utf8_decode ts)"
proof -
  consider "cp < 0x80" | "0x80 \<le> cp" "cp < 0x800" | "0x800 \<le> cp" "cp < 0x10000"
    | "0x10000 \<le> cp"
    by linarith
  then show ?thesis
  proof cases
    case 1
    then show ?thesis by (simp add: utf8_of_def utf16_def append_single)
  next
    case 2
    then have d: "2 \<le> cp div 64" "cp div 64 < 32" by simp_all
    from 2 have c: "cp < 65536" by simp
    have j: "cp div 64 * 64 + cp mod 64 = cp" by simp
    from 2 have u: "utf8_of cp = [0xC0 + cp div 64, 0x80 + cp mod 64]" by (simp add: utf8_of_def)
    from 2 have v: "utf16 cp = [cp]" by (simp add: utf16_def)
    from d c show ?thesis
      unfolding u v by (simp add: continuation_def j utf16_def 2 append_single mod64_le)
  next
    case 3
    then have d: "cp div 4096 < 16" by simp
    from 3 have u: "utf8_of cp = [0xE0 + cp div 4096, 0x80 + cp div 64 mod 64, 0x80 + cp mod 64]"
      by (simp add: utf8_of_def)
    from 3 have v: "utf16 cp = [cp]" by (simp add: utf16_def)
    from d 3 assms(2) show ?thesis
      unfolding u v by (simp add: continuation_def join3 utf16_def Let_def append_single mod64_le)
  next
    case 4
    with assms(1) have d: "cp div 262144 < 5" by simp
    from 4 have u: "utf8_of cp = [0xF0 + cp div 262144, 0x80 + cp div 4096 mod 64,
        0x80 + cp div 64 mod 64, 0x80 + cp mod 64]"
      by (simp add: utf8_of_def)
    from d 4 assms(1) show ?thesis
      unfolding u by (simp add: continuation_def join4 Let_def mod64_le)
  qed
qed

lemma utf16_pair:
  assumes "0xD800 \<le> c" and "0xDC00 \<le> d" and "d \<le> 0xDFFF"
  shows "utf16 (0x10000 + (c - 0xD800) * 1024 + (d - 0xDC00)) = [c, d]"
proof -
  from assms(2,3) have "d - 0xDC00 < 1024" by simp
  then have "((c - 0xD800) * 1024 + (d - 0xDC00)) div 1024 = c - 0xD800"
    and "((c - 0xD800) * 1024 + (d - 0xDC00)) mod 1024 = d - 0xDC00"
    by simp_all
  with assms show ?thesis by (simp add: utf16_def)
qed

lemma unreserved_plain: "unreserved c \<Longrightarrow> c \<noteq> 0x25 \<and> \<not> is_line_terminator c"
  unfolding unreserved_def is_line_terminator_def by auto

lemma percent_plain:
  "list_all (\<lambda>b. b < 256) bs \<Longrightarrow> \<not> list_ex is_line_terminator (percent bs)"
proof (induction bs)
  case Nil
  then show ?case by (simp add: percent_def)
next
  case (Cons b bs)
  from Cons.prems have "b < 256" by simp
  then have "b div 16 < 16" by simp
  then have "\<not> is_line_terminator (hex_char (b div 16))" by (rule hex_char_plain)
  moreover have "\<not> is_line_terminator (hex_char (b mod 16))" by (rule hex_char_plain) simp
  moreover have "\<not> is_line_terminator 0x25" by (simp add: is_line_terminator_def)
  ultimately show ?case using Cons by (simp add: percent_def)
qed

lemma piece_plain:
  assumes "cp < 0x110000"
  shows "\<not> list_ex is_line_terminator (if unreserved c then [c] else percent (utf8_of cp))"
  using unreserved_plain [of c] percent_plain [OF utf8_of_bytes [OF assms]] by simp

lemma piece_tokens:
  assumes "cp < 0x110000" and "\<not> (0xD800 \<le> cp \<and> cp \<le> 0xDFFF)"
    and "uri_tokens e = Some ts" and "utf8_decode ts = Some r"
  shows "\<exists>ts'. uri_tokens (percent (utf8_of cp) @ e) = Some ts' \<and>
               utf8_decode ts' = Some (utf16 cp @ r)"
proof -
  from assms(1) have "list_all (\<lambda>b. b < 256) (utf8_of cp)" by (rule utf8_of_bytes)
  then have "uri_tokens (percent (utf8_of cp) @ e) = Some (map Octet (utf8_of cp) @ ts)"
    by (simp add: uri_tokens_percent assms(3))
  moreover have "utf8_decode (map Octet (utf8_of cp) @ ts) = Some (utf16 cp @ r)"
    by (simp add: utf8_decode_code_point [OF assms(1,2)] assms(4))
  ultimately show ?thesis by blast
qed

lemma piece_literal:
  assumes "unreserved c" and "uri_tokens e = Some ts" and "utf8_decode ts = Some r"
  shows "\<exists>ts'. uri_tokens (c # e) = Some ts' \<and> utf8_decode ts' = Some (c # r)"
proof -
  from assms(1) have "c \<noteq> 0x25" by (simp add: unreserved_plain)
  then have "uri_tokens (c # e) = Some (Lit c # ts)"
    by (simp add: uri_tokens_literal assms(2))
  moreover have "utf8_decode (Lit c # ts) = Some (c # r)" by (simp add: assms(3))
  ultimately show ?thesis by blast
qed

lemma piece_unit:
  assumes "c < 0x10000" and "\<not> (0xD800 \<le> c \<and> c \<le> 0xDFFF)"
    and "uri_tokens e = Some ts" and "utf8_decode ts = Some r"
  shows "\<exists>ts'. uri_tokens ((if unreserved c then [c] else percent (utf8_of c)) @ e) = Some ts' \<and>
               utf8_decode ts' = Some (c # r)"
proof (cases "unreserved c")
  case True
  with piece_literal [OF True assms(3,4)] show ?thesis by simp
next
  case False
  from assms(1) have c: "c < 0x110000" by simp
  from assms(1) have "utf16 c = [c]" by (simp add: utf16_def)
  with piece_tokens [OF c assms(2,3,4)] False show ?thesis by simp
qed

lemma encoded_decodes:
  "list_all (\<lambda>c. c < 0x10000) s \<Longrightarrow> encodeURIComponent s = Inr e \<Longrightarrow>
   (\<exists>ts. uri_tokens e = Some ts \<and> utf8_decode ts = Some s) \<and> \<not> list_ex is_line_terminator e"
proof (induction s arbitrary: e rule: encodeURIComponent.induct)
  case 1
  then show ?case by simp
next
  case (2 c)
  then have c: "c < 0x10000" and ns: "\<not> (0xD800 \<le> c \<and> c \<le> 0xDFFF)"
    and e: "e = (if unreserved c then [c] else percent (utf8_of c))"
    by (auto split: if_splits)
  have "uri_tokens [] = Some []" "utf8_decode [] = Some []" by simp_all
  from piece_unit [OF c ns this] have "\<exists>ts. uri_tokens e = Some ts \<and> utf8_decode ts = Some [c]"
    by (simp add: e)
  moreover from c have "c < 0x110000" by simp
  then have "\<not> list_ex is_line_terminator e" unfolding e by (rule piece_plain)
  ultimately show ?case by simp
next
  case (3 c d r)
  from "3.prems"(1) have c: "c < 0x10000" and d: "d < 0x10000"
    and r: "list_all (\<lambda>c. c < 0x10000) r" by simp_all
  show ?case
  proof (cases "0xD800 \<le> c \<and> c \<le> 0xDBFF")
    case True
    with "3.prems"(2) have low: "0xDC00 \<le> d \<and> d \<le> 0xDFFF"
      by (auto split: if_splits)
    let ?cp = "0x10000 + (c - 0xD800) * 1024 + (d - 0xDC00)"
    from True low "3.prems"(2) obtain e' where e': "encodeURIComponent r = Inr e'"
      and e: "e = percent (utf8_of ?cp) @ e'"
      by (cases "encodeURIComponent r") auto
    from "3.IH"(1) True low r e' obtain ts where ts: "uri_tokens e' = Some ts"
      "utf8_decode ts = Some r" and plain: "\<not> list_ex is_line_terminator e'"
      by blast
    from True low have cp: "?cp < 0x110000" by arith
    have ns: "\<not> (0xD800 \<le> ?cp \<and> ?cp \<le> 0xDFFF)" by simp
    from True low have u: "utf16 ?cp = [c, d]"
      by (intro utf16_pair) simp_all
    from piece_tokens [OF cp ns ts] u
    have "\<exists>ts'. uri_tokens e = Some ts' \<and> utf8_decode ts' = Some (c # d # r)"
      by (simp add: e)
    moreover from percent_plain [OF utf8_of_bytes [OF cp]] plain
    have "\<not> list_ex is_line_terminator e" by (simp add: e)
    ultimately show ?thesis by simp
  next
    case False
    with "3.prems"(2) have ns: "\<not> (0xD800 \<le> c \<and> c \<le> 0xDFFF)"
      by (auto split: if_splits)
    from False ns "3.prems"(2) obtain e' where e': "encodeURIComponent (d # r) = Inr e'"
      and e: "e = (if unreserved c then [c] else percent (utf8_of c)) @ e'"
      by (cases "encodeURIComponent (d # r)") (auto split: if_splits)
    from ns have "\<not> (0xDC00 \<le> c \<and> c \<le> 0xDFFF)" by simp
    with "3.IH"(2) False d r e' obtain ts where ts: "uri_tokens e' = Some ts"
      "utf8_decode ts = Some (d # r)" and plain: "\<not> list_ex is_line_terminator e'"
      by auto
    from piece_unit [OF c ns ts]
    have "\<exists>ts'. uri_tokens e = Some ts' \<and> utf8_decode ts' = Some (c # d # r)"
      by (simp add: e)
    moreover from c have "c < 0x110000" by simp
    then have "\<not> list_ex is_line_terminator (if unreserved c then [c] else percent (utf8_of c))"
      by (rule piece_plain)
    with plain have "\<not> list_ex is_line_terminator e" by (simp add: e)
    ultimately show ?thesis by simp
  qed
qed

lemma decodeURIComponent_encode:
  assumes "list_all (\<lambda>c. c < 0x10000) s" and "encodeURIComponent s = Inr e"
  shows "decodeURIComponent e = Inr s"
  using encoded_decodes [OF assms] by (auto simp: decodeURIComponent_def)

lemma percent_data_url_round_trip:
  assumes "list_all (\<lambda>c. c < 0x10000) svg" and "encodeURIComponent svg = Inr e"
    and "params = [] \<or> hd params = 0x3B" and "0x2C \<notin> set params"
    and "\<not> search_ci (js '';base64'') params"
  shows "decodeSvgDataUrl cd (js ''data:image/svg+xml'' @ params @ 0x2C # e) = Some svg"
proof -
  from encoded_decodes [OF assms(1,2)] have plain: "\<not> list_ex is_line_terminator e" by simp
  show ?thesis
    unfolding decode_built [OF assms(3,4) plain]
    using assms(5) by (simp add: decodeURIComponent_encode [OF assms(1,2)])
qed

lemma utf8_encode_fixed_iff:
  "utf8_encode s = s \<longleftrightarrow> list_all (\<lambda>c. c < 0x80) s"
proof
  assume eq: "utf8_encode s = s"
  show "list_all (\<lambda>c. c < 0x80) s"
  proof (rule ccontr)
    assume "\<not> list_all (\<lambda>c. c < 0x80) s"
    then have "list_ex (\<lambda>c. 0x80 \<le> c) s"
      by (auto simp: list_all_iff list_ex_iff not_less)
    then have "length s < length (utf8_encode s)" by (rule length_utf8_encode_less)
    with eq show False by simp
  qed
next
  assume "list_all (\<lambda>c. c < 0x80) s"
  then show "utf8_encode s = s" by (rule utf8_encode_ascii)
qed

text \<open>
  Claim C4 fails for base64 where \<^verbatim>\<open>atob\<close> is there. For a string \<open>svg\<close> of code
  units and any parameters before the comma: the percent-encoded data URL decodes to
  \<open>svg\<close>; the base64 data URL decodes to the UTF-8 bytes of \<open>svg\<close>, one character per
  byte, because \<^verbatim>\<open>atob\<close> returns a binary string; and these bytes are \<open>svg\<close> exactly when
  \<open>svg\<close> is ASCII. (The other branch of the conditional,
  \<^verbatim>\<open>Buffer.from(payload, 'base64').toString('utf8')\<close>, does decode UTF-8.)
\<close>

theorem base64_payload_is_not_read_as_utf8:
  assumes "list_all (\<lambda>c. c < 0x10000) svg"
    and "params = [] \<or> hd params = 0x3B" and "0x2C \<notin> set params"
  shows "decodeSvgDataUrl browser_codec
           (js ''data:image/svg+xml'' @ params @ js '';base64,'' @ base64_encode (utf8_encode svg)) =
         Some (utf8_encode svg) \<and>
         (utf8_encode svg = svg \<longleftrightarrow> list_all (\<lambda>c. c < 0x80) svg) \<and>
         (\<forall>e. encodeURIComponent svg = Inr e \<and> \<not> search_ci (js '';base64'') params \<longrightarrow>
              decodeSvgDataUrl browser_codec (js ''data:image/svg+xml'' @ params @ 0x2C # e) =
              Some svg)"
  using base64_data_url_decodes_to_bytes [OF assms] utf8_encode_fixed_iff [of svg]
    percent_data_url_round_trip [OF assms(1) _ assms(2,3)]
  by blast

theorem base64_payload_is_not_read_as_utf8_witness:
  "decodeSvgDataUrl browser_codec (js ''data:image/svg+xml;base64,PHN2Zz7DpDwvc3ZnPg=='') =
     Some (js ''<svg>'' @ [0xC3, 0xA4] @ js ''</svg>'') \<and>
   js ''<svg>'' @ [0xC3, 0xA4] @ js ''</svg>'' \<noteq> js ''<svg>'' @ [0xE4] @ js ''</svg>'' \<and>
   decodeSvgDataUrl browser_codec (js ''data:image/svg+xml,%3Csvg%3E%C3%A4%3C%2Fsvg%3E'') =
     Some (js ''<svg>'' @ [0xE4] @ js ''</svg>'')"
proof -
  let ?svg = "js ''<svg>'' @ [0xE4] @ js ''</svg>''"
  have 1: "list_all (\<lambda>c. c < 0x10000) ?svg" by (simp add: js_def)
  have 2: "([]::jsstring) = [] \<or> hd ([]::jsstring) = 0x3B" by simp
  have 3: "0x2C \<notin> set ([]::jsstring)" by simp
  have u: "utf8_encode ?svg = js ''<svg>'' @ [0xC3, 0xA4] @ js ''</svg>''"
    by (simp add: js_def utf8_of_def)
  have b: "js ''data:image/svg+xml'' @ [] @ js '';base64,'' @ base64_encode (utf8_encode ?svg) =
           js ''data:image/svg+xml;base64,PHN2Zz7DpDwvc3ZnPg==''"
    unfolding u by (simp add: js_def base64_char_def)
  have e: "encodeURIComponent ?svg = Inr (js ''%3Csvg%3E%C3%A4%3C%2Fsvg%3E'')"
    by (simp add: js_def unreserved_def percent_def utf8_of_def hex_char_def)
  have n: "\<not> search_ci (js '';base64'') []" by (simp add: js_def)
  have p: "js ''data:image/svg+xml'' @ [] @ 0x2C # js ''%3Csvg%3E%C3%A4%3C%2Fsvg%3E'' =
           js ''data:image/svg+xml,%3Csvg%3E%C3%A4%3C%2Fsvg%3E''"
    by (simp add: js_def)
  from base64_payload_is_not_read_as_utf8 [OF 1 2 3] e n
  have f1: "decodeSvgDataUrl browser_codec
          (js ''data:image/svg+xml'' @ [] @ js '';base64,'' @ base64_encode (utf8_encode ?svg)) =
        Some (utf8_encode ?svg)"
    and f2: "utf8_encode ?svg \<noteq> ?svg"
    and f3: "decodeSvgDataUrl browser_codec
          (js ''data:image/svg+xml'' @ [] @ 0x2C # js ''%3Csvg%3E%C3%A4%3C%2Fsvg%3E'') = Some ?svg"
    by (simp_all add: js_def)
  from f1 have "decodeSvgDataUrl browser_codec (js ''data:image/svg+xml;base64,PHN2Zz7DpDwvc3ZnPg=='') =
        Some (utf8_encode ?svg)"
    by (simp only: b)
  then have g1: "decodeSvgDataUrl browser_codec (js ''data:image/svg+xml;base64,PHN2Zz7DpDwvc3ZnPg=='') =
        Some (js ''<svg>'' @ [0xC3, 0xA4] @ js ''</svg>'')"
    by (simp only: u)
  from f2 have g2: "js ''<svg>'' @ [0xC3, 0xA4] @ js ''</svg>'' \<noteq> ?svg"
    unfolding u .
  from f3 have g3: "decodeSvgDataUrl browser_codec (js ''data:image/svg+xml,%3Csvg%3E%C3%A4%3C%2Fsvg%3E'') =
        Some ?svg"
    by (simp only: p)
  from g1 g2 g3 show ?thesis by (intro conjI)
qed

end
